theory Spec2Isabelle
  imports Complex_Main "HOL-Library.AList" "HOL-Library.Sublist"
begin

section \<open>Circuit breaker: \<^verbatim>\<open>services/common/circuit_breaker.py\<close>\<close>

text \<open>
  Clock readings (\<^verbatim>\<open>time.time()\<close>, \<^verbatim>\<open>datetime.now()\<close>) and durations are exact
  rationals; every function that reads the clock takes the reading as an argument, one
  reading for all the reads it makes itself (the timestamp of a window entry and the
  failure stamp written by one \<^verbatim>\<open>_on_failure\<close> are the same reading \<open>now\<close>).
  Python computes them in binary floating point; rounding is outside this model.
  Methods keep their names without the leading underscore.
\<close>

type_synonym time = rat

datatype CircuitState = CLOSED | OPEN | HALF_OPEN

text \<open>
  Exceptions are values: the class name and \<^verbatim>\<open>str(e)\<close>. A function that may raise
  returns \<open>exn + 'r\<close>, with \<open>Inl\<close> for the raised exception.
\<close>

datatype exn = Exn (exn_type: string) (exn_str: string)

subsection \<open>\<^verbatim>\<open>CircuitBreakerMetrics\<close>\<close>

text \<open>One entry of the rolling window: the dict appended by \<^verbatim>\<open>record_success\<close> and
  \<^verbatim>\<open>record_failure\<close> (the key \<^verbatim>\<open>error\<close> is present for failures only).\<close>

record call_entry =
  entry_success :: bool
  entry_timestamp :: time
  entry_duration :: time
  entry_error :: "string option"

text \<open>
  \<^verbatim>\<open>collections.deque(maxlen=n).append(x)\<close>: the item is added on the right and, when the
  deque then holds more than \<open>maxlen\<close> items, one is discarded from the left.
\<close>

definition deque_append :: "int \<Rightarrow> 'a list \<Rightarrow> 'a \<Rightarrow> 'a list" where
  "deque_append maxlen xs x =
     (let ys = xs @ [x] in if int (length ys) > maxlen then tl ys else ys)"

record CircuitBreakerMetrics =
  window_size :: int
  calls :: "call_entry list"
  total_calls :: nat
  successful_calls :: nat
  failed_calls :: nat
  rejected_calls :: nat
  last_failure_time :: "time option"
  last_success_time :: "time option"
  circuit_opened_at :: "time option"

text \<open>\<^verbatim>\<open>CircuitBreakerMetrics.__init__\<close>: \<^verbatim>\<open>deque(maxlen=window_size)\<close> raises
  \<^verbatim>\<open>ValueError\<close> for a negative size.\<close>

definition CircuitBreakerMetrics_init :: "int \<Rightarrow> exn + CircuitBreakerMetrics" where
  "CircuitBreakerMetrics_init w =
     (if w < 0 then Inl (Exn ''ValueError'' ''maxlen must be non-negative'')
      else Inr \<lparr> window_size = w, calls = [], total_calls = 0, successful_calls = 0,
                 failed_calls = 0, rejected_calls = 0, last_failure_time = None,
                 last_success_time = None, circuit_opened_at = None \<rparr>)"

definition record_success :: "CircuitBreakerMetrics \<Rightarrow> time \<Rightarrow> time \<Rightarrow> CircuitBreakerMetrics" where
  "record_success m dur now =
     m\<lparr> calls := deque_append (window_size m) (calls m)
                    \<lparr> entry_success = True, entry_timestamp = now,
                      entry_duration = dur, entry_error = None \<rparr>,
        total_calls := total_calls m + 1,
        successful_calls := successful_calls m + 1,
        last_success_time := Some now \<rparr>"

definition record_failure :: "CircuitBreakerMetrics \<Rightarrow> exn \<Rightarrow> time \<Rightarrow> time \<Rightarrow> CircuitBreakerMetrics" where
  "record_failure m err dur now =
     m\<lparr> calls := deque_append (window_size m) (calls m)
                    \<lparr> entry_success = False, entry_timestamp = now,
                      entry_duration = dur, entry_error = Some (exn_str err) \<rparr>,
        total_calls := total_calls m + 1,
        failed_calls := failed_calls m + 1,
        last_failure_time := Some now \<rparr>"

definition record_rejection :: "CircuitBreakerMetrics \<Rightarrow> CircuitBreakerMetrics" where
  "record_rejection m =
     m\<lparr> total_calls := total_calls m + 1, rejected_calls := rejected_calls m + 1 \<rparr>"

definition get_failure_rate :: "CircuitBreakerMetrics \<Rightarrow> rat" where
  "get_failure_rate m =
     (if calls m = [] then 0
      else of_nat (length (filter (\<lambda>c. \<not> entry_success c) (calls m)))
           / of_nat (length (calls m)))"

text \<open>A run of the three recording operations, oldest first.\<close>

datatype metrics_op =
    RecordSuccess time time
  | RecordFailure exn time time
  | RecordRejection

fun apply_metrics_op :: "CircuitBreakerMetrics \<Rightarrow> metrics_op \<Rightarrow> CircuitBreakerMetrics" where
  "apply_metrics_op m (RecordSuccess dur now) = record_success m dur now"
| "apply_metrics_op m (RecordFailure err dur now) = record_failure m err dur now"
| "apply_metrics_op m RecordRejection = record_rejection m"

fun run_metrics :: "CircuitBreakerMetrics \<Rightarrow> metrics_op list \<Rightarrow> CircuitBreakerMetrics" where
  "run_metrics m [] = m"
| "run_metrics m (x # xs) = run_metrics (apply_metrics_op m x) xs"

fun is_failure_op :: "metrics_op \<Rightarrow> bool" where
  "is_failure_op (RecordFailure err dur now) = True"
| "is_failure_op x = False"

text \<open>The window entries an operation appends: one for a success or a failure, none for a
  rejection.\<close>

fun entries_of_op :: "metrics_op \<Rightarrow> call_entry list" where
  "entries_of_op (RecordSuccess dur now) =
     [\<lparr> entry_success = True, entry_timestamp = now, entry_duration = dur, entry_error = None \<rparr>]"
| "entries_of_op (RecordFailure err dur now) =
     [\<lparr> entry_success = False, entry_timestamp = now, entry_duration = dur,
        entry_error = Some (exn_str err) \<rparr>]"
| "entries_of_op RecordRejection = []"

definition appended_entries :: "metrics_op list \<Rightarrow> call_entry list" where
  "appended_entries ops = concat (map entries_of_op ops)"

text \<open>The last \<open>min(W, n)\<close> of \<open>n\<close> entries.\<close>

definition last_entries :: "int \<Rightarrow> 'a list \<Rightarrow> 'a list" where
  "last_entries w es = drop (length es - min (nat w) (length es)) es"

text \<open>
  The failure rate as the specification words it: \<open>F / min(W, total_calls)\<close>, with \<open>F\<close> the
  failures among the last \<open>min(W, total_calls)\<close> calls, where \<open>total_calls\<close> counts every
  recorded call (the counter of the code counts rejections too).
\<close>

definition spec_failure_rate :: "int \<Rightarrow> metrics_op list \<Rightarrow> rat" where
  "spec_failure_rate w ops =
     (let k = min (nat w) (length ops);
          recent = drop (length ops - k) ops
      in of_nat (length (filter is_failure_op recent)) / of_nat k)"

subsection \<open>\<^verbatim>\<open>CircuitBreaker\<close>\<close>

text \<open>
  The attributes \<^verbatim>\<open>_state\<close>, \<^verbatim>\<open>_failure_count\<close>, \<^verbatim>\<open>_success_count\<close> and
  \<^verbatim>\<open>_last_failure_time\<close> are the fields \<open>cb_state\<close>, \<open>cb_failure_count\<close>,
  \<open>cb_success_count\<close> and \<open>cb_last_failure_time\<close>. The two counters start at 0 and are
  only incremented or set to 0, so they are naturals. \<open>expected_exception b e\<close> is
  \<^verbatim>\<open>isinstance(e, self.expected_exception)\<close>. The wrapped operation and the fallback take
  the arguments \<open>'a\<close> and return \<open>'r\<close> or raise. \<open>state_changes\<close> lists the calls of
  \<^verbatim>\<open>_notify_state_change\<close>, oldest first: what every registered listener is called with
  (a listener's own exception is caught and logged there).
\<close>

record ('a, 'r) CircuitBreaker =
  name :: string
  failure_threshold :: int
  recovery_timeout :: time
  expected_exception :: "exn \<Rightarrow> bool"
  success_threshold :: int
  failure_rate_threshold :: rat
  fallback_function :: "('a \<Rightarrow> exn + 'r) option"
  cb_state :: CircuitState
  cb_failure_count :: nat
  cb_success_count :: nat
  cb_last_failure_time :: "time option"
  metrics :: CircuitBreakerMetrics
  state_changes :: "CircuitState list"

definition CircuitBreaker_init ::
  "string \<Rightarrow> int \<Rightarrow> time \<Rightarrow> (exn \<Rightarrow> bool) \<Rightarrow> int \<Rightarrow> rat \<Rightarrow> int
     \<Rightarrow> ('a \<Rightarrow> exn + 'r) option \<Rightarrow> exn + ('a, 'r) CircuitBreaker" where
  "CircuitBreaker_init nm fthr rto exc sthr frate wsize fb =
     (case CircuitBreakerMetrics_init wsize of
        Inl e \<Rightarrow> Inl e
      | Inr m \<Rightarrow>
          Inr \<lparr> name = nm, failure_threshold = fthr, recovery_timeout = rto,
                expected_exception = exc, success_threshold = sthr,
                failure_rate_threshold = frate, fallback_function = fb,
                cb_state = CLOSED, cb_failure_count = 0, cb_success_count = 0,
                cb_last_failure_time = None, metrics = m, state_changes = [] \<rparr>)"

definition notify_state_change ::
  "('a, 'r) CircuitBreaker \<Rightarrow> CircuitState \<Rightarrow> ('a, 'r) CircuitBreaker" where
  "notify_state_change b new_state = b\<lparr> state_changes := state_changes b @ [new_state] \<rparr>"

text \<open>
  \<^verbatim>\<open>_should_attempt_reset\<close>: \<^verbatim>\<open>self._last_failure_time and (time.time() - ... >= ...)\<close>.
  The left operand is tested for truth: \<^verbatim>\<open>None\<close> and the float \<^verbatim>\<open>0.0\<close> are both false.
\<close>

definition should_attempt_reset :: "('a, 'r) CircuitBreaker \<Rightarrow> time \<Rightarrow> bool" where
  "should_attempt_reset b now =
     (case cb_last_failure_time b of
        None \<Rightarrow> False
      | Some tf \<Rightarrow> tf \<noteq> 0 \<and> now - tf \<ge> recovery_timeout b)"

definition transition_to_open ::
  "('a, 'r) CircuitBreaker \<Rightarrow> time \<Rightarrow> ('a, 'r) CircuitBreaker" where
  "transition_to_open b now =
     notify_state_change
       (b\<lparr> cb_state := OPEN, cb_failure_count := 0, cb_success_count := 0,
           metrics := (metrics b)\<lparr> circuit_opened_at := Some now \<rparr> \<rparr>) OPEN"

definition transition_to_half_open :: "('a, 'r) CircuitBreaker \<Rightarrow> ('a, 'r) CircuitBreaker" where
  "transition_to_half_open b =
     notify_state_change
       (b\<lparr> cb_state := HALF_OPEN, cb_success_count := 0, cb_failure_count := 0 \<rparr>) HALF_OPEN"

definition transition_to_closed :: "('a, 'r) CircuitBreaker \<Rightarrow> ('a, 'r) CircuitBreaker" where
  "transition_to_closed b =
     notify_state_change
       (b\<lparr> cb_state := CLOSED, cb_failure_count := 0, cb_success_count := 0,
           metrics := (metrics b)\<lparr> circuit_opened_at := None \<rparr> \<rparr>) CLOSED"

text \<open>The property \<^verbatim>\<open>state\<close>, read at clock \<open>now\<close>: the state returned and the breaker
  after the read.\<close>

definition state ::
  "('a, 'r) CircuitBreaker \<Rightarrow> time \<Rightarrow> CircuitState \<times> ('a, 'r) CircuitBreaker" where
  "state b now =
     (let b' = (if cb_state b = OPEN
                then (if should_attempt_reset b now then transition_to_half_open b else b)
                else b)
      in (cb_state b', b'))"

definition on_success :: "('a, 'r) CircuitBreaker \<Rightarrow> time \<Rightarrow> time \<Rightarrow> ('a, 'r) CircuitBreaker" where
  "on_success b dur now =
     (let b1 = b\<lparr> metrics := record_success (metrics b) dur now \<rparr> in
      if cb_state b1 = HALF_OPEN then
        (let b2 = b1\<lparr> cb_success_count := cb_success_count b1 + 1 \<rparr> in
         if int (cb_success_count b2) \<ge> success_threshold b2 then transition_to_closed b2
         else b2)
      else b1\<lparr> cb_failure_count := 0 \<rparr>)"

definition on_failure ::
  "('a, 'r) CircuitBreaker \<Rightarrow> exn \<Rightarrow> time \<Rightarrow> time \<Rightarrow> ('a, 'r) CircuitBreaker" where
  "on_failure b err dur now =
     (let b1 = b\<lparr> metrics := record_failure (metrics b) err dur now,
                   cb_last_failure_time := Some now \<rparr> in
      if cb_state b1 = CLOSED then
        (let b2 = b1\<lparr> cb_failure_count := cb_failure_count b1 + 1 \<rparr> in
         if int (cb_failure_count b2) \<ge> failure_threshold b2
            \<or> get_failure_rate (metrics b2) \<ge> failure_rate_threshold b2
         then transition_to_open b2 now
         else b2)
      else if cb_state b1 = HALF_OPEN then transition_to_open b1 now
      else b1)"

text \<open>
  The clock as one \<^verbatim>\<open>call()\<close> reads it: in the state query that opens the call, around the
  operation (\<open>op_duration\<close> is \<^verbatim>\<open>time.time() - start_time\<close>), inside
  \<^verbatim>\<open>_on_success\<close> or \<^verbatim>\<open>_on_failure\<close>, and in the state query of the \<^verbatim>\<open>except\<close> branch.
\<close>

record call_clock =
  at_state :: time
  op_duration :: time
  at_handler :: time
  at_recheck :: time

datatype call_event = InvokedOperation | InvokedFallback

definition circuit_open_error :: "('a, 'r) CircuitBreaker \<Rightarrow> exn" where
  "circuit_open_error b =
     Exn ''CircuitBreakerError''
       (''Circuit breaker '' @ [CHR 0x27] @ name b @ [CHR 0x27] @ '' is OPEN'')"

text \<open>
  \<^verbatim>\<open>call(func, *args, **kwargs)\<close>: what the call returns or raises, the breaker after it,
  and which of the two callables were invoked, in order.
\<close>

definition call ::
  "('a, 'r) CircuitBreaker \<Rightarrow> ('a \<Rightarrow> exn + 'r) \<Rightarrow> 'a \<Rightarrow> call_clock
     \<Rightarrow> (exn + 'r) \<times> ('a, 'r) CircuitBreaker \<times> call_event list" where
  "call b func args ck =
     (case state b (at_state ck) of (st, b0) \<Rightarrow>
        if st = OPEN then
          (let b1 = b0\<lparr> metrics := record_rejection (metrics b0) \<rparr> in
           case fallback_function b1 of
             Some fb \<Rightarrow> (fb args, b1, [InvokedFallback])
           | None \<Rightarrow> (Inl (circuit_open_error b1), b1, []))
        else
          (case func args of
             Inr result \<Rightarrow>
               (Inr result, on_success b0 (op_duration ck) (at_handler ck), [InvokedOperation])
           | Inl e \<Rightarrow>
               if expected_exception b0 e then
                 (let b1 = on_failure b0 e (op_duration ck) (at_handler ck) in
                  case state b1 (at_recheck ck) of (st2, b2) \<Rightarrow>
                    if st2 = HALF_OPEN then
                      (case fallback_function b2 of
                         Some fb \<Rightarrow> (fb args, b2, [InvokedOperation, InvokedFallback])
                       | None \<Rightarrow> (Inl e, b2, [InvokedOperation]))
                    else (Inl e, b2, [InvokedOperation]))
               else (Inl e, b0, [InvokedOperation])))"

definition reset :: "('a, 'r) CircuitBreaker \<Rightarrow> ('a, 'r) CircuitBreaker" where
  "reset b = transition_to_closed b"

text \<open>The operations a client can apply to a breaker, and a run of them.\<close>

datatype ('a, 'r) breaker_op =
    QueryState time
  | Call "'a \<Rightarrow> exn + 'r" 'a call_clock
  | Reset

fun apply_breaker_op ::
  "('a, 'r) CircuitBreaker \<Rightarrow> ('a, 'r) breaker_op \<Rightarrow> ('a, 'r) CircuitBreaker" where
  "apply_breaker_op b (QueryState now) = snd (state b now)"
| "apply_breaker_op b (Call func args ck) = fst (snd (call b func args ck))"
| "apply_breaker_op b Reset = reset b"

fun run_breaker ::
  "('a, 'r) CircuitBreaker \<Rightarrow> ('a, 'r) breaker_op list \<Rightarrow> ('a, 'r) CircuitBreaker" where
  "run_breaker b [] = b"
| "run_breaker b (x # xs) = run_breaker (apply_breaker_op b x) xs"

text \<open>
  A run of calls of one operation with the same arguments, each at its own clock: the
  breaker after the run and how many of the calls invoked the operation.
\<close>

fun run_calls ::
  "('a, 'r) CircuitBreaker \<Rightarrow> ('a \<Rightarrow> exn + 'r) \<Rightarrow> 'a \<Rightarrow> call_clock list
     \<Rightarrow> ('a, 'r) CircuitBreaker \<times> nat" where
  "run_calls b func args [] = (b, 0)"
| "run_calls b func args (ck # cks) =
     (case call b func args ck of (res, b', evs) \<Rightarrow>
        (case run_calls b' func args cks of (b'', n) \<Rightarrow>
           (b'', (if InvokedOperation \<in> set evs then 1 else 0) + n)))"

subsection \<open>Concrete breakers, operations and clocks\<close>

text \<open>
  \<open>example_breaker\<close> is \<^verbatim>\<open>CircuitBreaker('api', failure_threshold=3, recovery_timeout=10)\<close>
  with every other parameter at its default (\<^verbatim>\<open>expected_exception=Exception\<close> catches
  every exception of the operation); \<open>fallback_breaker\<close> adds a fallback function.
\<close>

definition boom :: exn where
  "boom = Exn ''ConnectionError'' ''connection refused''"

definition failing :: "unit \<Rightarrow> exn + string" where
  "failing u = Inl boom"

definition succeeding :: "unit \<Rightarrow> exn + string" where
  "succeeding u = Inr ''fresh''"

definition cached :: "unit \<Rightarrow> exn + string" where
  "cached u = Inr ''cached''"

definition any_exception :: "exn \<Rightarrow> bool" where
  "any_exception e = True"

definition tick :: "time \<Rightarrow> call_clock" where
  "tick t = \<lparr> at_state = t, op_duration = 0, at_handler = t, at_recheck = t \<rparr>"

definition example_metrics :: CircuitBreakerMetrics where
  "example_metrics =
     \<lparr> window_size = 100, calls = [], total_calls = 0, successful_calls = 0,
       failed_calls = 0, rejected_calls = 0, last_failure_time = None,
       last_success_time = None, circuit_opened_at = None \<rparr>"

definition example_breaker :: "(unit, string) CircuitBreaker" where
  "example_breaker =
     \<lparr> name = ''api'', failure_threshold = 3, recovery_timeout = 10,
       expected_exception = any_exception, success_threshold = 2,
       failure_rate_threshold = 1 / 2, fallback_function = None,
       cb_state = CLOSED, cb_failure_count = 0, cb_success_count = 0,
       cb_last_failure_time = None, metrics = example_metrics, state_changes = [] \<rparr>"

definition fallback_breaker :: "(unit, string) CircuitBreaker" where
  "fallback_breaker = example_breaker\<lparr> fallback_function := Some cached \<rparr>"

text \<open>
  Breakers reached from these by runs: \<open>open_breaker\<close> after one failure at clock 1 (a
  failure rate of 1 in the window opens it), \<open>epoch_breaker\<close> after one failure at clock
  0, \<open>tripped_breaker\<close> after three failures, each later one probing after the recovery
  timeout, and \<open>half_open_breaker\<close>, with a fallback, probing after one failure.
\<close>

definition open_breaker :: "(unit, string) CircuitBreaker" where
  "open_breaker = run_breaker example_breaker [Call failing () (tick 1)]"

definition epoch_breaker :: "(unit, string) CircuitBreaker" where
  "epoch_breaker = run_breaker example_breaker [Call failing () (tick 0)]"

definition tripped_breaker :: "(unit, string) CircuitBreaker" where
  "tripped_breaker = fst (run_calls example_breaker failing () [tick 1, tick 100, tick 200])"

definition half_open_breaker :: "(unit, string) CircuitBreaker" where
  "half_open_breaker = run_breaker fallback_breaker [Call failing () (tick 1), QueryState 11]"

section \<open>Batched consumer: \<^verbatim>\<open>services/kafka-consumer/optimized_consumer.py\<close>\<close>

text \<open>
  A polled Kafka record, and the message dict \<^verbatim>\<open>_add_to_batch\<close> builds from it. The
  payload is opaque. \<open>msg_retry_count\<close> is the key \<^verbatim>\<open>retry_count\<close> of the dict, which
  \<^verbatim>\<open>_send_to_dlq\<close> reads with \<^verbatim>\<open>message.get('retry_count', 0)\<close>: \<open>None\<close> when the key is
  absent, as it is in every dict \<^verbatim>\<open>_add_to_batch\<close> builds.
\<close>

type_synonym topic_partition = "string \<times> int"

record consumer_record =
  rec_topic :: string
  rec_partition :: int
  rec_offset :: int
  rec_key :: "string option"
  rec_value :: string
  rec_timestamp :: int
  rec_headers :: "(string \<times> string) list option"

record message =
  msg_topic :: string
  msg_partition :: int
  msg_offset :: int
  msg_key :: "string option"
  msg_value :: string
  msg_timestamp :: int
  msg_headers :: "(string \<times> string) list"
  msg_retry_count :: "int option"

record dlq_message =
  dlq_original_message :: message
  dlq_error :: string
  dlq_error_type :: string
  dlq_timestamp :: time
  dlq_consumer_group :: string
  dlq_retry_count :: int

record ConsumerConfig =
  bootstrap_servers :: string
  consumer_group :: string
  topics :: "string list"
  fetch_min_bytes :: int
  fetch_max_wait_ms :: int
  max_poll_records :: int
  max_poll_interval_ms :: int
  session_timeout_ms :: int
  batch_size :: int
  batch_timeout_ms :: int
  num_workers :: int
  max_retries :: int
  retry_backoff_ms :: int
  enable_dlq :: bool
  dlq_topic :: "string option"

datatype thread = Worker nat | LagMonitor

text \<open>
  What the consumer does to the world, oldest first: the calls of the message handler, of
  \<^verbatim>\<open>self.consumer.commit\<close>, of the error handler and of \<^verbatim>\<open>self.dlq_producer.send\<close>, the
  threads it starts, each entry into the poll loop, the closing of the consumer and of
  the producer, and the lines it logs at level error. Prometheus updates and the other
  log lines change no control flow and are left out, and so are the bodies of the worker
  threads (a sleep loop) and of the lag monitor (gauges only).
\<close>

datatype event =
    HandlerCalled "message list"
  | Commit "(topic_partition \<times> int) list"
  | ErrorHandlerCalled exn message
  | DlqSend string dlq_message "string option"
  | ThreadStarted thread
  | PollLoopEntered
  | ConsumerClosed
  | ProducerClosed
  | LogError string

text \<open>
  The collaborators are functions that return \<open>None\<close> when the call returns and \<open>Some e\<close>
  when it raises \<open>e\<close> (an \<^verbatim>\<open>Exception\<close>): the message handler, the error handler,
  \<^verbatim>\<open>KafkaConsumer.commit\<close>, and \<^verbatim>\<open>KafkaProducer.send(...).get(timeout=10)\<close>.
  The two handlers are passed objects the consumer goes on to read: the message handler
  the list \<^verbatim>\<open>batch\<close>, which \<^verbatim>\<open>_commit_batch_offsets\<close> and \<^verbatim>\<open>_handle_batch_error\<close> read
  after it, and the error handler the message dict, which \<^verbatim>\<open>_send_to_dlq\<close> reads after
  it. So each returns, beside the exception, the list or the dict as the call leaves it
  (the argument itself for a handler that alters nothing; the dicts keep the keys and
  the types of a message, and a handler reaches the list and the dicts through the
  argument it is passed). \<open>error_handler\<close> is the method \<^verbatim>\<open>_default_error_handler\<close> or
  the callable given to the constructor. \<open>dlq_producer\<close> is \<open>None\<close> when the
  constructor made no producer.
\<close>

datatype error_callback =
    DefaultErrorHandler
  | CustomErrorHandler "exn \<Rightarrow> message \<Rightarrow> exn option \<times> message"

record OptimizedKafkaConsumer =
  config :: ConsumerConfig
  message_handler :: "message list \<Rightarrow> exn option \<times> message list"
  error_handler :: error_callback
  consumer_commit :: "(topic_partition \<times> int) list \<Rightarrow> exn option"
  dlq_producer :: "(string \<Rightarrow> dlq_message \<Rightarrow> string option \<Rightarrow> exn option) option"
  running :: bool
  processing_threads :: "thread list"
  batch_queue :: "message list"
  last_batch_time :: time
  trace :: "event list"

definition emit :: "OptimizedKafkaConsumer \<Rightarrow> event list \<Rightarrow> OptimizedKafkaConsumer" where
  "emit c evs = c\<lparr> trace := trace c @ evs \<rparr>"

text \<open>\<^verbatim>\<open>str\<close> of an integer, for the log lines that print one.\<close>

fun str_nat :: "nat \<Rightarrow> string" where
  "str_nat n =
     (if n < 10 then [char_of (48 + n)]
      else str_nat (n div 10) @ [char_of (48 + n mod 10)])"

declare str_nat.simps [simp del]

definition str_int :: "int \<Rightarrow> string" where
  "str_int i = (if i < 0 then CHR ''-'' # str_nat (nat (- i)) else str_nat (nat i))"

text \<open>\<^verbatim>\<open>_default_error_handler\<close> logs one line and returns.\<close>

definition default_error_handler ::
  "OptimizedKafkaConsumer \<Rightarrow> exn \<Rightarrow> message \<Rightarrow> OptimizedKafkaConsumer" where
  "default_error_handler c error msg =
     emit c [LogError (''Error processing message from '' @ msg_topic msg @ '':''
                        @ str_int (msg_partition msg) @ '':'' @ str_int (msg_offset msg)
                        @ '' - '' @ exn_str error)]"

text \<open>
  \<^verbatim>\<open>self.error_handler(error, msg)\<close>: what the call raises, the dict as it leaves it, and
  the consumer after it.
\<close>

definition error_handler_result ::
  "OptimizedKafkaConsumer \<Rightarrow> exn \<Rightarrow> message \<Rightarrow> exn option \<times> message" where
  "error_handler_result c error msg =
     (case error_handler c of
        DefaultErrorHandler \<Rightarrow> (None, msg)
      | CustomErrorHandler h \<Rightarrow> h error msg)"

definition call_error_handler ::
  "OptimizedKafkaConsumer \<Rightarrow> exn \<Rightarrow> message
     \<Rightarrow> (exn option \<times> message) \<times> OptimizedKafkaConsumer" where
  "call_error_handler c error msg =
     (case error_handler c of
        DefaultErrorHandler \<Rightarrow> ((None, msg), default_error_handler c error msg)
      | CustomErrorHandler h \<Rightarrow> (h error msg, c))"

definition OptimizedKafkaConsumer_init ::
  "ConsumerConfig \<Rightarrow> (message list \<Rightarrow> exn option \<times> message list)
     \<Rightarrow> (exn \<Rightarrow> message \<Rightarrow> exn option \<times> message) option
     \<Rightarrow> ((topic_partition \<times> int) list \<Rightarrow> exn option)
     \<Rightarrow> (string \<Rightarrow> dlq_message \<Rightarrow> string option \<Rightarrow> exn option) \<Rightarrow> time
     \<Rightarrow> OptimizedKafkaConsumer" where
  "OptimizedKafkaConsumer_init cfg handler err_handler commit send now =
     \<lparr> config = cfg,
       message_handler = handler,
       error_handler =
         (case err_handler of Some h \<Rightarrow> CustomErrorHandler h | None \<Rightarrow> DefaultErrorHandler),
       consumer_commit = commit,
       dlq_producer = (if enable_dlq cfg then Some send else None),
       running = False, processing_threads = [], batch_queue = [],
       last_batch_time = now, trace = [] \<rparr>"

definition tp_of :: "message \<Rightarrow> topic_partition" where
  "tp_of msg = (msg_topic msg, msg_partition msg)"

text \<open>The dict \<^verbatim>\<open>offsets\<close> of \<^verbatim>\<open>_commit_batch_offsets\<close>, in insertion order.\<close>

definition batch_offsets :: "message list \<Rightarrow> (topic_partition \<times> int) list" where
  "batch_offsets batch =
     fold (\<lambda>msg offsets. AList.update (tp_of msg) (msg_offset msg + 1) offsets) batch []"

text \<open>\<^verbatim>\<open>_commit_batch_offsets\<close>: the exception it lets through, if any, and the consumer;
  an exception of class \<^verbatim>\<open>CommitFailedError\<close> is caught and logged.\<close>

definition commit_batch_offsets ::
  "OptimizedKafkaConsumer \<Rightarrow> message list \<Rightarrow> exn option \<times> OptimizedKafkaConsumer" where
  "commit_batch_offsets c batch =
     (let offsets = batch_offsets batch;
          c1 = emit c [Commit offsets]
      in case consumer_commit c1 offsets of
           None \<Rightarrow> (None, c1)
         | Some e \<Rightarrow>
             if exn_type e = ''CommitFailedError''
             then (None, emit c1 [LogError (''Failed to commit offsets: '' @ exn_str e)])
             else (Some e, c1))"

definition dlq_topic_for :: "OptimizedKafkaConsumer \<Rightarrow> message \<Rightarrow> string" where
  "dlq_topic_for c msg =
     (case dlq_topic (config c) of
        Some t \<Rightarrow> if t \<noteq> [] then t else msg_topic msg @ ''-dlq''
      | None \<Rightarrow> msg_topic msg @ ''-dlq'')"

definition dlq_message_for ::
  "OptimizedKafkaConsumer \<Rightarrow> message \<Rightarrow> exn \<Rightarrow> time \<Rightarrow> dlq_message" where
  "dlq_message_for c msg error now =
     \<lparr> dlq_original_message = msg,
       dlq_error = exn_str error,
       dlq_error_type = exn_type error,
       dlq_timestamp = now,
       dlq_consumer_group = consumer_group (config c),
       dlq_retry_count = (case msg_retry_count msg of None \<Rightarrow> 0 | Some n \<Rightarrow> n) + 1 \<rparr>"

text \<open>\<^verbatim>\<open>str\<close> of the \<^verbatim>\<open>AttributeError\<close> of \<^verbatim>\<open>None.send\<close>.\<close>

definition no_producer_text :: string where
  "no_producer_text =
     [CHR 0x27] @ ''NoneType'' @ [CHR 0x27] @ '' object has no attribute ''
       @ [CHR 0x27] @ ''send'' @ [CHR 0x27]"

definition send_to_dlq ::
  "OptimizedKafkaConsumer \<Rightarrow> message \<Rightarrow> exn \<Rightarrow> time \<Rightarrow> OptimizedKafkaConsumer" where
  "send_to_dlq c msg error now =
     (let topic = dlq_topic_for c msg;
          dlq_msg = dlq_message_for c msg error now
      in case dlq_producer c of
           None \<Rightarrow>
             emit c [LogError (''Failed to send to DLQ: '' @ no_producer_text)]
         | Some send \<Rightarrow>
             (case send topic dlq_msg (msg_key msg) of
                None \<Rightarrow> emit c [DlqSend topic dlq_msg (msg_key msg)]
              | Some e \<Rightarrow>
                  emit c [DlqSend topic dlq_msg (msg_key msg),
                          LogError (''Failed to send to DLQ: '' @ exn_str e)]))"

text \<open>
  One pass of the loop of \<^verbatim>\<open>_handle_batch_error\<close>, the body of its \<^verbatim>\<open>try\<close>: the error
  handler is called with the message, and the dead-letter send reads the dict as that
  call left it.
\<close>

definition handle_message_error ::
  "OptimizedKafkaConsumer \<Rightarrow> message \<Rightarrow> exn \<Rightarrow> time \<Rightarrow> OptimizedKafkaConsumer" where
  "handle_message_error c msg error now =
     (case call_error_handler (emit c [ErrorHandlerCalled error msg]) error msg of
        ((Some e, msg'), c1) \<Rightarrow>
          emit c1 [LogError (''Error in error handler: '' @ exn_str e)]
      | ((None, msg'), c1) \<Rightarrow>
          if enable_dlq (config c1) \<and> dlq_producer c1 \<noteq> None
          then send_to_dlq c1 msg' error now
          else c1)"

text \<open>\<^verbatim>\<open>_handle_batch_error\<close>: the loop over the batch, each message in its own
  \<^verbatim>\<open>try\<close>.\<close>

fun handle_batch_error ::
  "OptimizedKafkaConsumer \<Rightarrow> message list \<Rightarrow> exn \<Rightarrow> time \<Rightarrow> OptimizedKafkaConsumer" where
  "handle_batch_error c [] error now = c"
| "handle_batch_error c (msg # batch) error now =
     handle_batch_error (handle_message_error c msg error now) batch error now"

text \<open>
  \<^verbatim>\<open>_process_batch\<close>: the handler is called with the list \<^verbatim>\<open>batch\<close>; the commit and the
  error handling then read the same list, as the handler left it.
\<close>

definition process_batch ::
  "OptimizedKafkaConsumer \<Rightarrow> message list \<Rightarrow> time \<Rightarrow> OptimizedKafkaConsumer" where
  "process_batch c batch now =
     (let c1 = emit c [HandlerCalled batch]
      in case message_handler c1 batch of
           (None, batch') \<Rightarrow>
             (case commit_batch_offsets c1 batch' of
                (None, c2) \<Rightarrow> c2
              | (Some e, c2) \<Rightarrow>
                  handle_batch_error
                    (emit c2 [LogError (''Error processing batch: '' @ exn_str e)])
                    batch' e now)
         | (Some e, batch') \<Rightarrow>
             handle_batch_error
               (emit c1 [LogError (''Error processing batch: '' @ exn_str e)]) batch' e now)"

definition flush_batch :: "OptimizedKafkaConsumer \<Rightarrow> time \<Rightarrow> OptimizedKafkaConsumer" where
  "flush_batch c now =
     (if batch_queue c = [] then c
      else process_batch (c\<lparr> batch_queue := [], last_batch_time := now \<rparr>) (batch_queue c) now)"

text \<open>\<^verbatim>\<open>dict(record.headers) if record.headers else {}\<close>: a later pair replaces the
  value of an earlier one with the same key.\<close>

definition headers_dict :: "(string \<times> string) list option \<Rightarrow> (string \<times> string) list" where
  "headers_dict hs =
     (case hs of
        None \<Rightarrow> []
      | Some ps \<Rightarrow> fold (\<lambda>(k, v) d. AList.update k v d) ps [])"

definition message_of :: "consumer_record \<Rightarrow> message" where
  "message_of r =
     \<lparr> msg_topic = rec_topic r, msg_partition = rec_partition r, msg_offset = rec_offset r,
       msg_key = rec_key r, msg_value = rec_value r, msg_timestamp = rec_timestamp r,
       msg_headers = headers_dict (rec_headers r), msg_retry_count = None \<rparr>"

definition add_to_batch ::
  "OptimizedKafkaConsumer \<Rightarrow> consumer_record \<Rightarrow> time \<Rightarrow> OptimizedKafkaConsumer" where
  "add_to_batch c r now =
     (let c1 = c\<lparr> batch_queue := batch_queue c @ [message_of r] \<rparr>
      in if int (length (batch_queue c1)) \<ge> batch_size (config c1)
         then flush_batch c1 now else c1)"

definition check_batch_timeout :: "OptimizedKafkaConsumer \<Rightarrow> time \<Rightarrow> OptimizedKafkaConsumer" where
  "check_batch_timeout c now =
     (let elapsed = (now - last_batch_time c) * 1000
      in if elapsed \<ge> of_int (batch_timeout_ms (config c)) \<and> batch_queue c \<noteq> []
         then (if batch_queue c \<noteq> [] then flush_batch c now else c)
         else c)"

text \<open>
  One iteration of the loop of \<^verbatim>\<open>_consume_messages\<close>: what \<^verbatim>\<open>self.consumer.poll\<close> returned
  (the records by partition, in the order of the dict) or raised, a \<^verbatim>\<open>KafkaError\<close> or
  another \<^verbatim>\<open>Exception\<close>, and the clock. The run of the loop is given by the polls made
  so far; it is left when \<^verbatim>\<open>running\<close> is false.
\<close>

datatype poll =
    Polled "(topic_partition \<times> consumer_record list) list" time
  | PollRaisedKafkaError exn
  | PollRaised exn

fun add_records ::
  "OptimizedKafkaConsumer \<Rightarrow> consumer_record list \<Rightarrow> time \<Rightarrow> OptimizedKafkaConsumer" where
  "add_records c [] now = c"
| "add_records c (r # rs) now = add_records (add_to_batch c r now) rs now"

definition poll_step :: "OptimizedKafkaConsumer \<Rightarrow> poll \<Rightarrow> OptimizedKafkaConsumer" where
  "poll_step c p =
     (case p of
        Polled messages now \<Rightarrow>
          if messages = [] then check_batch_timeout c now
          else add_records c (concat (map snd messages)) now
      | PollRaisedKafkaError e \<Rightarrow>
          emit c [LogError (''Kafka consumer error: '' @ exn_str e)]
      | PollRaised e \<Rightarrow>
          emit c [LogError (''Unexpected error in consumer loop: '' @ exn_str e)])"

fun consume_messages :: "OptimizedKafkaConsumer \<Rightarrow> poll list \<Rightarrow> OptimizedKafkaConsumer" where
  "consume_messages c [] = c"
| "consume_messages c (p # ps) =
     (if running c then consume_messages (poll_step c p) ps else c)"

text \<open>\<^verbatim>\<open>start()\<close>, with the polls its loop makes.\<close>

definition start :: "OptimizedKafkaConsumer \<Rightarrow> poll list \<Rightarrow> OptimizedKafkaConsumer" where
  "start c polls =
     (let c1 = c\<lparr> running := True \<rparr>;
          workers = map Worker [0 ..< nat (num_workers (config c1))];
          c2 = emit (c1\<lparr> processing_threads := processing_threads c1 @ workers \<rparr>)
                 (map ThreadStarted workers);
          c3 = emit c2 [ThreadStarted LagMonitor]
      in consume_messages (emit c3 [PollLoopEntered]) polls)"

definition stop :: "OptimizedKafkaConsumer \<Rightarrow> time \<Rightarrow> OptimizedKafkaConsumer" where
  "stop c now =
     (let c1 = c\<lparr> running := False \<rparr>;
          c2 = (if batch_queue c1 \<noteq> [] then flush_batch c1 now else c1)
      in emit c2 (ConsumerClosed # (if dlq_producer c2 \<noteq> None then [ProducerClosed] else [])))"

text \<open>The operations that touch the open batch buffer, and a run of them (the poll loop
  touches the buffer through the first two only).\<close>

datatype consumer_op =
    AddToBatch consumer_record time
  | CheckBatchTimeout time
  | FlushBatch time
  | Stop time

fun apply_consumer_op :: "OptimizedKafkaConsumer \<Rightarrow> consumer_op \<Rightarrow> OptimizedKafkaConsumer" where
  "apply_consumer_op c (AddToBatch r now) = add_to_batch c r now"
| "apply_consumer_op c (CheckBatchTimeout now) = check_batch_timeout c now"
| "apply_consumer_op c (FlushBatch now) = flush_batch c now"
| "apply_consumer_op c (Stop now) = stop c now"

fun run_consumer :: "OptimizedKafkaConsumer \<Rightarrow> consumer_op list \<Rightarrow> OptimizedKafkaConsumer" where
  "run_consumer c [] = c"
| "run_consumer c (x # xs) = run_consumer (apply_consumer_op c x) xs"

text \<open>Projections of a trace.\<close>

fun handled_batches :: "event list \<Rightarrow> message list list" where
  "handled_batches [] = []"
| "handled_batches (HandlerCalled batch # evs) = batch # handled_batches evs"
| "handled_batches (ev # evs) = handled_batches evs"

fun commits :: "event list \<Rightarrow> (topic_partition \<times> int) list list" where
  "commits [] = []"
| "commits (Commit offsets # evs) = offsets # commits evs"
| "commits (ev # evs) = commits evs"

fun dlq_sends :: "event list \<Rightarrow> (string \<times> dlq_message \<times> string option) list" where
  "dlq_sends [] = []"
| "dlq_sends (DlqSend topic dlq_msg k # evs) = (topic, dlq_msg, k) # dlq_sends evs"
| "dlq_sends (ev # evs) = dlq_sends evs"

fun threads_started :: "event list \<Rightarrow> thread list" where
  "threads_started [] = []"
| "threads_started (ThreadStarted t # evs) = t # threads_started evs"
| "threads_started (ev # evs) = threads_started evs"

fun poll_loops_entered :: "event list \<Rightarrow> nat" where
  "poll_loops_entered [] = 0"
| "poll_loops_entered (PollLoopEntered # evs) = Suc (poll_loops_entered evs)"
| "poll_loops_entered (ev # evs) = poll_loops_entered evs"

text \<open>
  The commit as the specification words it: for a partition of the batch, the largest
  offset of that partition in the batch, plus 1.
\<close>

definition spec_commit_offset :: "message list \<Rightarrow> topic_partition \<Rightarrow> int" where
  "spec_commit_offset batch tp =
     Max (set (map msg_offset (filter (\<lambda>m. tp_of m = tp) batch))) + 1"

text \<open>The offset the code commits: that of the last message of the partition.\<close>

definition last_offset :: "message list \<Rightarrow> topic_partition \<Rightarrow> int" where
  "last_offset batch tp = msg_offset (last (filter (\<lambda>m. tp_of m = tp) batch))"

text \<open>The bound on the open buffer and on the batches the handler has received.\<close>

definition batches_bounded :: "OptimizedKafkaConsumer \<Rightarrow> bool" where
  "batches_bounded c =
     (int (length (batch_queue c)) < batch_size (config c)
      \<and> list_all (\<lambda>b. b \<noteq> [] \<and> int (length b) \<le> batch_size (config c))
           (handled_batches (trace c)))"

subsection \<open>Concrete consumers, handlers and batches\<close>

text \<open>
  \<open>example_config\<close> is the configuration of \<^verbatim>\<open>CleanPlatformConsumer\<close> with a batch size of
  2 and 4 workers; \<open>example_consumer\<close> is a consumer constructed with it whose handler,
  commit and dead-letter send all return and alter nothing, and with no error handler of
  its own.
\<close>

definition example_config :: ConsumerConfig where
  "example_config =
     \<lparr> bootstrap_servers = ''localhost:9092'', consumer_group = ''clean-platform-consumer'',
       topics = [''platform-events'', ''platform-metrics''],
       fetch_min_bytes = 65536, fetch_max_wait_ms = 500, max_poll_records = 500,
       max_poll_interval_ms = 300000, session_timeout_ms = 30000,
       batch_size = 2, batch_timeout_ms = 5000, num_workers = 4,
       max_retries = 3, retry_backoff_ms = 1000, enable_dlq = True, dlq_topic = None \<rparr>"

definition ok_handler :: "message list \<Rightarrow> exn option \<times> message list" where
  "ok_handler batch = (None, batch)"

definition bad_payload :: exn where
  "bad_payload = Exn ''ValueError'' ''bad payload''"

definition failing_handler :: "message list \<Rightarrow> exn option \<times> message list" where
  "failing_handler batch = (Some bad_payload, batch)"

text \<open>Handlers that take the last message off the list with \<^verbatim>\<open>batch.pop()\<close>, and then
  return or raise.\<close>

definition popping_handler :: "message list \<Rightarrow> exn option \<times> message list" where
  "popping_handler batch =
     (if batch = [] then (Some (Exn ''IndexError'' ''pop from empty list''), [])
      else (None, butlast batch))"

definition popping_failing_handler :: "message list \<Rightarrow> exn option \<times> message list" where
  "popping_failing_handler batch =
     (if batch = [] then (Some (Exn ''IndexError'' ''pop from empty list''), [])
      else (Some bad_payload, butlast batch))"

definition raising_error_handler :: "exn \<Rightarrow> message \<Rightarrow> exn option \<times> message" where
  "raising_error_handler error msg = (Some (Exn ''RuntimeError'' ''alerting is down''), msg)"

definition ok_commit :: "(topic_partition \<times> int) list \<Rightarrow> exn option" where
  "ok_commit offsets = None"

definition ok_send :: "string \<Rightarrow> dlq_message \<Rightarrow> string option \<Rightarrow> exn option" where
  "ok_send topic dlq_msg k = None"

definition failing_send :: "string \<Rightarrow> dlq_message \<Rightarrow> string option \<Rightarrow> exn option" where
  "failing_send topic dlq_msg k = Some (Exn ''KafkaTimeoutError'' ''timed out'')"

definition example_consumer :: OptimizedKafkaConsumer where
  "example_consumer = OptimizedKafkaConsumer_init example_config ok_handler None ok_commit ok_send 0"

definition event_record :: "int \<Rightarrow> consumer_record" where
  "event_record off =
     \<lparr> rec_topic = ''platform-events'', rec_partition = 0, rec_offset = off,
       rec_key = None, rec_value = ''{}'', rec_timestamp = 0, rec_headers = None \<rparr>"

section \<open>Rolling window and failure rate\<close>

lemmas metrics_defs = record_failure_def record_success_def record_rejection_def
  get_failure_rate_def deque_append_def

lemma last_entries_eq: "last_entries w es = drop (length es - nat w) es"
  by (simp add: last_entries_def min_def)

lemma length_last_entries: "length (last_entries w es) = min (nat w) (length es)"
  by (simp add: last_entries_def)

lemma deque_append_last:
  assumes "length xs \<le> nat w" and "0 \<le> w"
  shows "deque_append w xs x = last_entries w (xs @ [x])"
proof (cases "length xs = nat w")
  case True
  with assms have "int (length (xs @ [x])) > w" by simp
  moreover have "tl (xs @ [x]) = drop 1 (xs @ [x])"
    by (simp only: One_nat_def drop_Suc drop_0)
  moreover from True have "length (xs @ [x]) - nat w = 1" by simp
  ultimately show ?thesis
    by (simp add: deque_append_def last_entries_eq del: drop_append)
next
  case False
  with assms have "length xs < nat w" by simp
  then have "\<not> int (length (xs @ [x])) > w" and "length (xs @ [x]) - nat w = 0" by auto
  then show ?thesis
    by (simp add: deque_append_def last_entries_eq del: drop_append)
qed

lemma last_entries_idem: "length xs \<le> nat w \<Longrightarrow> last_entries w xs = xs"
  by (simp add: last_entries_eq)

lemma last_entries_append:
  "last_entries w (last_entries w xs @ ys) = last_entries w (xs @ ys)"
proof (cases "length xs \<le> nat w")
  case True
  then show ?thesis by (simp add: last_entries_eq)
next
  case False
  then have "length xs + length ys - (length xs - nat w + nat w) + (length xs - nat w)
      = length xs + length ys - nat w"
    by simp
  then show ?thesis by (simp add: last_entries_eq)
qed

lemma calls_apply:
  assumes "length (calls m) \<le> nat (window_size m)" and "0 \<le> window_size m"
  shows "calls (apply_metrics_op m x) = last_entries (window_size m) (calls m @ entries_of_op x)"
  using assms
  by (cases x) (simp_all add: record_success_def record_failure_def record_rejection_def
      deque_append_last last_entries_idem)

lemma window_size_apply [simp]: "window_size (apply_metrics_op m x) = window_size m"
  by (cases x) (simp_all add: record_success_def record_failure_def record_rejection_def)

lemma window_size_run [simp]: "window_size (run_metrics m ops) = window_size m"
  by (induction ops arbitrary: m) simp_all

lemma calls_run:
  assumes "length (calls m) \<le> nat (window_size m)" and "0 \<le> window_size m"
  shows "calls (run_metrics m ops)
     = last_entries (window_size m) (calls m @ appended_entries ops)"
  using assms
proof (induction ops arbitrary: m)
  case Nil
  then show ?case by (simp add: appended_entries_def last_entries_idem)
next
  case (Cons x xs)
  let ?m = "apply_metrics_op m x"
  have c: "calls ?m = last_entries (window_size m) (calls m @ entries_of_op x)"
    using Cons.prems by (rule calls_apply)
  then have "length (calls ?m) \<le> nat (window_size ?m)"
    by (simp add: length_last_entries)
  with Cons.IH [of ?m] Cons.prems(2)
  have "calls (run_metrics ?m xs) = last_entries (window_size m) (calls ?m @ appended_entries xs)"
    by simp
  then show ?case
    by (simp add: c last_entries_append appended_entries_def)
qed

lemma total_calls_run: "total_calls (run_metrics m ops) = total_calls m + length ops"
proof (induction ops arbitrary: m)
  case Nil
  show ?case by simp
next
  case (Cons x xs)
  have "total_calls (apply_metrics_op m x) = total_calls m + 1"
    by (cases x) (simp_all add: record_success_def record_failure_def record_rejection_def)
  with Cons.IH [of "apply_metrics_op m x"] show ?case by simp
qed

lemma run_metrics_append: "run_metrics m (xs @ ys) = run_metrics (run_metrics m xs) ys"
  by (induction xs arbitrary: m) simp_all

lemma failure_rate_window:
  "get_failure_rate m =
     (if length (calls m) = 0 then 0
      else of_nat (length (filter (\<lambda>c. \<not> entry_success c) (calls m)))
           / of_nat (length (calls m)))"
  by (simp add: get_failure_rate_def)

lemma init_Inr:
  "CircuitBreakerMetrics_init w = Inr m \<Longrightarrow> 0 \<le> w \<and> window_size m = w \<and> calls m = []"
  by (auto simp: CircuitBreakerMetrics_init_def split: if_splits)

text \<open>
  C4, as the specification states it, is false once a call has been rejected:
  \<^verbatim>\<open>record_rejection\<close> increments \<^verbatim>\<open>total_calls\<close> and appends nothing to the window.
  After a success, a failure and a rejection in a window of size 100, \<^verbatim>\<open>total_calls\<close> is 3,
  the window holds two entries, and \<^verbatim>\<open>get_failure_rate()\<close> returns 1/2; the formula
  \<open>F / min(W, total_calls)\<close> gives 1/3 (and 2/3 if the rejection were counted as a failure).
\<close>

theorem C4_rejections_counterexample:
  "map_sum id (\<lambda>m. total_calls (run_metrics m
        [RecordSuccess 0 1, RecordFailure boom 0 2, RecordRejection]))
      (CircuitBreakerMetrics_init 100) = Inr 3
   \<and> map_sum id (\<lambda>m. get_failure_rate (run_metrics m
        [RecordSuccess 0 1, RecordFailure boom 0 2, RecordRejection]))
      (CircuitBreakerMetrics_init 100) = Inr (1 / 2)
   \<and> spec_failure_rate 100 [RecordSuccess 0 1, RecordFailure boom 0 2, RecordRejection] = 1 / 3"
  by (simp add: CircuitBreakerMetrics_init_def metrics_defs spec_failure_rate_def)

text \<open>
  C4 (amended). For a metrics object constructed with window size \<open>W\<close> (\<open>W \<ge> 0\<close>, else the
  constructor raises) and any sequence of recorded successes, failures and rejections:
  with \<open>n\<close> the number of recorded successes and failures (the entries ever appended;
  rejections append none) the window is exactly the last \<open>min(W, n)\<close> of them,
  \<^verbatim>\<open>get_failure_rate()\<close> returns \<open>F / min(W, n)\<close> for the \<open>F\<close> failures among these (and 0
  when \<open>min(W, n) = 0\<close>), the window never holds more than \<open>W\<close> entries, and recording
  one more success or failure into a full window drops its oldest entry.
\<close>

theorem C4_rolling_failure_rate:
  assumes init: "CircuitBreakerMetrics_init w = Inr m0"
  shows "calls (run_metrics m0 ops) = last_entries w (appended_entries ops)
    \<and> length (calls (run_metrics m0 ops)) = min (nat w) (length (appended_entries ops))
    \<and> get_failure_rate (run_metrics m0 ops) =
        (if min (nat w) (length (appended_entries ops)) = 0 then 0
         else of_nat (length (filter (\<lambda>c. \<not> entry_success c)
                                (last_entries w (appended_entries ops))))
              / of_nat (min (nat w) (length (appended_entries ops))))
    \<and> int (length (calls (run_metrics m0 ops))) \<le> w
    \<and> (0 < w \<and> nat w \<le> length (appended_entries ops) \<longrightarrow>
         calls (run_metrics m0 (ops @ [RecordSuccess dur now]))
           = tl (calls (run_metrics m0 ops)) @ entries_of_op (RecordSuccess dur now)
       \<and> calls (run_metrics m0 (ops @ [RecordFailure err dur now]))
           = tl (calls (run_metrics m0 ops)) @ entries_of_op (RecordFailure err dur now))"
proof -
  from init_Inr [OF init] have w: "0 \<le> w" "window_size m0 = w" "calls m0 = []" by simp_all
  have c: "calls (run_metrics m0 xs) = last_entries w (appended_entries xs)" for xs
    using calls_run [of m0 xs] w by simp
  have l: "length (calls (run_metrics m0 ops)) = min (nat w) (length (appended_entries ops))"
    by (simp add: c length_last_entries)
  have r: "get_failure_rate (run_metrics m0 ops) =
        (if min (nat w) (length (appended_entries ops)) = 0 then 0
         else of_nat (length (filter (\<lambda>c. \<not> entry_success c)
                                (last_entries w (appended_entries ops))))
              / of_nat (min (nat w) (length (appended_entries ops))))"
    unfolding failure_rate_window l by (simp add: c)
  have b: "int (length (calls (run_metrics m0 ops))) \<le> w"
    using w(1) by (simp add: l)
  have e: "calls (run_metrics m0 (ops @ [x])) = tl (calls (run_metrics m0 ops)) @ entries_of_op x"
    if "0 < w" "nat w \<le> length (appended_entries ops)" "length (entries_of_op x) = 1" for x
  proof -
    let ?m = "run_metrics m0 ops"
    have full: "length (calls ?m) = nat w" using that l by simp
    have "calls (run_metrics m0 (ops @ [x])) = calls (apply_metrics_op ?m x)"
      by (simp add: run_metrics_append)
    also have "\<dots> = last_entries w (calls ?m @ entries_of_op x)"
      using calls_apply [of ?m x] full w by simp
    also have "\<dots> = drop 1 (calls ?m @ entries_of_op x)"
      using full that by (simp add: last_entries_eq del: drop_append)
    also have "\<dots> = tl (calls ?m) @ entries_of_op x"
      using full that(1) by (cases "calls ?m") (simp_all add: drop_Suc)
    finally show ?thesis .
  qed
  from c [of ops] l r b e [of "RecordSuccess dur now"] e [of "RecordFailure err dur now"]
  show ?thesis by simp
qed

theorem C4_rolling_failure_rate_witness:
  "CircuitBreakerMetrics_init 2 = Inr (example_metrics\<lparr> window_size := 2 \<rparr>)
   \<and> map entry_success (calls (run_metrics (example_metrics\<lparr> window_size := 2 \<rparr>)
        [RecordSuccess 0 1, RecordRejection, RecordFailure boom 0 2, RecordSuccess 0 3]))
      = [False, True]
   \<and> get_failure_rate (run_metrics (example_metrics\<lparr> window_size := 2 \<rparr>)
        [RecordSuccess 0 1, RecordRejection, RecordFailure boom 0 2, RecordSuccess 0 3]) = 1 / 2
   \<and> map entry_success (calls (run_metrics (example_metrics\<lparr> window_size := 2 \<rparr>)
        ([RecordSuccess 0 1, RecordRejection, RecordFailure boom 0 2, RecordSuccess 0 3]
          @ [RecordFailure boom 0 4])))
      = [True, False]"
  using C4_rolling_failure_rate [where w = 2 and ?m0.0 = "example_metrics\<lparr> window_size := 2 \<rparr>"
      and ops = "[RecordSuccess 0 1, RecordRejection, RecordFailure boom 0 2, RecordSuccess 0 3]"
      and dur = 0 and now = 4 and err = boom]
  by (simp add: CircuitBreakerMetrics_init_def example_metrics_def appended_entries_def
      last_entries_def)

section \<open>Circuit breaker state machine\<close>

lemmas breaker_defs = call_def state_def on_failure_def on_success_def transition_to_open_def
  transition_to_half_open_def transition_to_closed_def notify_state_change_def
  should_attempt_reset_def Let_def

lemmas example_defs = example_breaker_def example_metrics_def fallback_breaker_def tick_def
  failing_def succeeding_def cached_def boom_def any_exception_def

subsection \<open>One call\<close>

lemma call_config:
  assumes "call b func args ck = (res, b1, evs)"
  shows "failure_threshold b1 = failure_threshold b \<and> recovery_timeout b1 = recovery_timeout b
    \<and> expected_exception b1 = expected_exception b \<and> success_threshold b1 = success_threshold b
    \<and> failure_rate_threshold b1 = failure_rate_threshold b
    \<and> fallback_function b1 = fallback_function b \<and> name b1 = name b"
  using assms
  by (auto simp: breaker_defs split: option.splits if_splits sum.splits)

lemma call_failing_closed:
  assumes "func args = Inl e" and "expected_exception b e" and "cb_state b = CLOSED"
    and "call b func args ck = (res, b1, evs)"
  shows "InvokedOperation \<in> set evs \<and>
    ((cb_state b1 = CLOSED \<and> cb_failure_count b1 = cb_failure_count b + 1
        \<and> int (cb_failure_count b + 1) < failure_threshold b
        \<and> state_changes b1 = state_changes b)
     \<or> (cb_state b1 \<noteq> CLOSED
        \<and> (\<exists>new. state_changes b1 = state_changes b @ new \<and> OPEN \<in> set new)))"
  using assms
  by (auto simp: breaker_defs split: option.splits if_splits sum.splits)

lemma call_failing_not_closed:
  assumes "func args = Inl e" and "expected_exception b e" and "cb_state b \<noteq> CLOSED"
    and "call b func args ck = (res, b1, evs)"
  shows "cb_state b1 \<noteq> CLOSED \<and> (\<exists>new. state_changes b1 = state_changes b @ new)"
  using assms
  by (auto simp: breaker_defs split: option.splits if_splits sum.splits)

lemma call_failing_prompt:
  assumes "func args = Inl e" and "expected_exception b e" and "cb_state b \<noteq> HALF_OPEN"
    and "call b func args ck = (res, b1, evs)"
    and "at_recheck ck - at_handler ck < recovery_timeout b"
  shows "cb_state b1 \<noteq> HALF_OPEN"
  using assms
  by (auto simp: breaker_defs split: option.splits if_splits sum.splits)

lemma call_open_rejected:
  assumes "cb_state b = OPEN" and "cb_last_failure_time b = Some tf"
    and "at_state ck - tf < recovery_timeout b"
  shows "call b func args ck =
     ((case fallback_function b of Some fb \<Rightarrow> fb args | None \<Rightarrow> Inl (circuit_open_error b)),
      b\<lparr> metrics := record_rejection (metrics b) \<rparr>,
      (case fallback_function b of Some fb \<Rightarrow> [InvokedFallback] | None \<Rightarrow> []))"
  using assms
  by (simp add: call_def state_def should_attempt_reset_def Let_def circuit_open_error_def
      split: option.splits)

lemma call_succeeding:
  assumes "func args = Inr r" and "cb_state b \<noteq> OPEN"
  shows "call b func args ck
    = (Inr r, on_success b (op_duration ck) (at_handler ck), [InvokedOperation])"
  using assms by (simp add: call_def state_def Let_def)

subsection \<open>Consecutive failures\<close>

lemma run_calls_failing:
  assumes f: "func args = Inl e"
  shows "expected_exception b e \<Longrightarrow> run_calls b func args cks = (b', N) \<Longrightarrow>
     (cb_state b = CLOSED \<longrightarrow>
        1 \<le> N \<and> failure_threshold b \<le> int (cb_failure_count b) + int N) \<Longrightarrow>
     cb_state b' \<noteq> CLOSED \<and>
     (\<exists>new. state_changes b' = state_changes b @ new
            \<and> (cb_state b = CLOSED \<longrightarrow> OPEN \<in> set new))"
proof (induction cks arbitrary: b N)
  case Nil
  then show ?case by auto
next
  case (Cons ck cks)
  obtain res b1 evs where c: "call b func args ck = (res, b1, evs)"
    by (cases "call b func args ck") auto
  obtain n where r: "run_calls b1 func args cks = (b', n)"
    and N: "N = (if InvokedOperation \<in> set evs then 1 else 0) + n"
    using Cons.prems(2) c by (auto split: prod.splits)
  from call_config [OF c] Cons.prems(1)
  have ex: "expected_exception b1 e" and thr: "failure_threshold b1 = failure_threshold b"
    by simp_all
  show ?case
  proof (cases "cb_state b = CLOSED")
    case True
    from call_failing_closed [OF f Cons.prems(1) True c]
    have inv: "InvokedOperation \<in> set evs"
      and alt: "(cb_state b1 = CLOSED \<and> cb_failure_count b1 = cb_failure_count b + 1
          \<and> int (cb_failure_count b + 1) < failure_threshold b
          \<and> state_changes b1 = state_changes b)
        \<or> (cb_state b1 \<noteq> CLOSED
          \<and> (\<exists>new. state_changes b1 = state_changes b @ new \<and> OPEN \<in> set new))"
      by simp_all
    from inv N have N1: "N = 1 + n" by simp
    from alt show ?thesis
    proof
      assume a: "cb_state b1 = CLOSED \<and> cb_failure_count b1 = cb_failure_count b + 1
          \<and> int (cb_failure_count b + 1) < failure_threshold b
          \<and> state_changes b1 = state_changes b"
      with Cons.prems(3) True N1 thr
      have "cb_state b1 = CLOSED \<longrightarrow>
          1 \<le> n \<and> failure_threshold b1 \<le> int (cb_failure_count b1) + int n"
        by auto
      from Cons.IH [OF ex r this] a show ?thesis by auto
    next
      assume a: "cb_state b1 \<noteq> CLOSED
          \<and> (\<exists>new. state_changes b1 = state_changes b @ new \<and> OPEN \<in> set new)"
      then have "cb_state b1 = CLOSED \<longrightarrow>
          1 \<le> n \<and> failure_threshold b1 \<le> int (cb_failure_count b1) + int n"
        by simp
      from Cons.IH [OF ex r this] a show ?thesis by auto
    qed
  next
    case False
    from call_failing_not_closed [OF f Cons.prems(1) False c]
    have a: "cb_state b1 \<noteq> CLOSED" and ch: "\<exists>new. state_changes b1 = state_changes b @ new"
      by simp_all
    then have "cb_state b1 = CLOSED \<longrightarrow>
        1 \<le> n \<and> failure_threshold b1 \<le> int (cb_failure_count b1) + int n"
      by simp
    from Cons.IH [OF ex r this] ch False show ?thesis by auto
  qed
qed

lemma run_calls_failing_prompt:
  assumes f: "func args = Inl e"
  shows "expected_exception b e \<Longrightarrow> run_calls b func args cks = (b', N) \<Longrightarrow>
     list_all (\<lambda>ck. at_recheck ck - at_handler ck < recovery_timeout b) cks \<Longrightarrow>
     cb_state b \<noteq> HALF_OPEN \<Longrightarrow> cb_state b' \<noteq> HALF_OPEN"
proof (induction cks arbitrary: b N)
  case Nil
  then show ?case by auto
next
  case (Cons ck cks)
  obtain res b1 evs where c: "call b func args ck = (res, b1, evs)"
    by (cases "call b func args ck") auto
  obtain n where r: "run_calls b1 func args cks = (b', n)"
    using Cons.prems(2) c by (auto split: prod.splits)
  from call_config [OF c] Cons.prems(1)
  have ex: "expected_exception b1 e" and rt: "recovery_timeout b1 = recovery_timeout b"
    by simp_all
  from Cons.prems(3) have p: "at_recheck ck - at_handler ck < recovery_timeout b"
    and ps: "list_all (\<lambda>ck. at_recheck ck - at_handler ck < recovery_timeout b1) cks"
    by (simp_all add: rt)
  from call_failing_prompt [OF f Cons.prems(1) Cons.prems(4) c p]
  have "cb_state b1 \<noteq> HALF_OPEN" .
  from Cons.IH [OF ex r ps this] show ?case .
qed

text \<open>
  C1. Take a breaker in CLOSED and any run of calls of an operation that raises the
  expected exception whenever it is invoked, each call at its own clock readings. If the
  operation was invoked (and so failed) \<open>N\<close> times in the run, with \<open>N \<ge> 1\<close> and
  \<open>N \<ge> failure_threshold\<close>, then the breaker went to OPEN during the run (the listeners
  were notified of OPEN), it is OPEN or, where a state query has found the recovery
  timeout elapsed, HALF_OPEN after the run, and it is OPEN whenever every call rechecked
  the state less than \<open>recovery_timeout\<close> after its failure was stamped. Any call on a
  breaker in OPEN whose clock is less than \<open>recovery_timeout\<close> past the last failure is
  rejected: the operation is not invoked, the result is the fallback's if one is
  configured and else the exception of class \<^verbatim>\<open>CircuitBreakerError\<close> that names the
  breaker, and only the rejection is counted.
\<close>

theorem C1_failures_open_the_breaker:
  assumes "cb_state b = CLOSED"
    and "func args = Inl e" and "expected_exception b e"
    and "run_calls b func args cks = (b', N)"
    and "1 \<le> N" and "failure_threshold b \<le> int N"
  shows "(\<exists>new. state_changes b' = state_changes b @ new \<and> OPEN \<in> set new)
    \<and> (cb_state b' = OPEN \<or> cb_state b' = HALF_OPEN)
    \<and> (list_all (\<lambda>ck. at_recheck ck - at_handler ck < recovery_timeout b) cks
          \<longrightarrow> cb_state b' = OPEN)
    \<and> (cb_state bo = OPEN \<and> cb_last_failure_time bo = Some tf
          \<and> at_state ck - tf < recovery_timeout bo \<longrightarrow>
        call bo g a ck =
          ((case fallback_function bo of
              Some fb \<Rightarrow> fb a
            | None \<Rightarrow>
                Inl (Exn ''CircuitBreakerError''
                       (''Circuit breaker '' @ [CHR 0x27] @ name bo @ [CHR 0x27]
                          @ '' is OPEN''))),
           bo\<lparr> metrics := record_rejection (metrics bo) \<rparr>,
           (case fallback_function bo of Some fb \<Rightarrow> [InvokedFallback] | None \<Rightarrow> [])))"
proof -
  from assms have pre: "cb_state b = CLOSED \<longrightarrow>
      1 \<le> N \<and> failure_threshold b \<le> int (cb_failure_count b) + int N"
    by simp
  from run_calls_failing [OF assms(2) assms(3) assms(4) pre] assms(1)
  have nc: "cb_state b' \<noteq> CLOSED"
    and ch: "\<exists>new. state_changes b' = state_changes b @ new \<and> OPEN \<in> set new"
    by simp_all
  from nc have st: "cb_state b' = OPEN \<or> cb_state b' = HALF_OPEN"
    by (cases "cb_state b'") simp_all
  have pr: "cb_state b' = OPEN"
    if "list_all (\<lambda>ck. at_recheck ck - at_handler ck < recovery_timeout b) cks"
  proof -
    from assms(1) have "cb_state b \<noteq> HALF_OPEN" by simp
    from run_calls_failing_prompt [OF assms(2) assms(3) assms(4) that this] st
    show ?thesis by simp
  qed
  from ch st pr call_open_rejected [of bo tf ck g a] show ?thesis
    unfolding circuit_open_error_def by blast
qed

lemma example_run_failing:
  "run_calls example_breaker failing () [tick 1, tick 100, tick 200] = (tripped_breaker, 3)
   \<and> cb_state tripped_breaker = OPEN
   \<and> cb_last_failure_time tripped_breaker = Some 200
   \<and> recovery_timeout tripped_breaker = 10
   \<and> fallback_function tripped_breaker = None
   \<and> name tripped_breaker = ''api''
   \<and> state_changes tripped_breaker = [OPEN, HALF_OPEN, OPEN, HALF_OPEN, OPEN]"
  by (simp add: tripped_breaker_def breaker_defs example_defs metrics_defs)

theorem C1_failures_open_the_breaker_witness:
  "cb_state example_breaker = CLOSED \<and> failing () = Inl boom
   \<and> expected_exception example_breaker boom
   \<and> run_calls example_breaker failing () [tick 1, tick 100, tick 200] = (tripped_breaker, 3)
   \<and> failure_threshold example_breaker = 3
   \<and> cb_state tripped_breaker = OPEN
   \<and> OPEN \<in> set (state_changes tripped_breaker)
   \<and> call tripped_breaker failing () (tick 205)
      = (Inl (Exn ''CircuitBreakerError''
                (''Circuit breaker '' @ [CHR 0x27] @ ''api'' @ [CHR 0x27] @ '' is OPEN'')),
         tripped_breaker\<lparr> metrics := record_rejection (metrics tripped_breaker) \<rparr>, [])"
proof -
  let ?cks = "[tick 1, tick 100, tick 200]"
  have h1: "cb_state example_breaker = CLOSED"
    and h3: "expected_exception example_breaker boom"
    and h6: "failure_threshold example_breaker = 3"
    by (simp_all add: example_breaker_def any_exception_def)
  have h2: "failing () = Inl boom" by (simp add: failing_def)
  have h4: "run_calls example_breaker failing () ?cks = (tripped_breaker, 3)"
    using example_run_failing by blast
  have p: "list_all (\<lambda>ck. at_recheck ck - at_handler ck < recovery_timeout example_breaker) ?cks"
    by (simp add: tick_def example_breaker_def)
  have o: "cb_state tripped_breaker = OPEN \<and> cb_last_failure_time tripped_breaker = Some 200
      \<and> at_state (tick 205) - 200 < recovery_timeout tripped_breaker"
    using example_run_failing by (simp add: tick_def)
  have fb: "fallback_function tripped_breaker = None" "name tripped_breaker = ''api''"
    using example_run_failing by blast+
  from h6 have h6': "failure_threshold example_breaker \<le> int 3" by simp
  from C1_failures_open_the_breaker [OF h1 h2 h3 h4 _ h6', where bo = tripped_breaker
      and tf = 200 and ck = "tick 205" and g = failing and a = "()"] p o fb
  have "(\<exists>new. state_changes tripped_breaker = state_changes example_breaker @ new
           \<and> OPEN \<in> set new)
    \<and> cb_state tripped_breaker = OPEN
    \<and> call tripped_breaker failing () (tick 205)
      = (Inl (Exn ''CircuitBreakerError''
                (''Circuit breaker '' @ [CHR 0x27] @ ''api'' @ [CHR 0x27] @ '' is OPEN'')),
         tripped_breaker\<lparr> metrics := record_rejection (metrics tripped_breaker) \<rparr>, [])"
    by (simp del: run_calls.simps)
  then have "OPEN \<in> set (state_changes tripped_breaker)
    \<and> cb_state tripped_breaker = OPEN
    \<and> call tripped_breaker failing () (tick 205)
      = (Inl (Exn ''CircuitBreakerError''
                (''Circuit breaker '' @ [CHR 0x27] @ ''api'' @ [CHR 0x27] @ '' is OPEN'')),
         tripped_breaker\<lparr> metrics := record_rejection (metrics tripped_breaker) \<rparr>, [])"
    by auto
  with h1 h2 h3 h4 h6 show ?thesis by blast
qed

subsection \<open>Recovery: OPEN to HALF_OPEN and back\<close>

lemma example_open_breaker:
  "CircuitBreaker_init ''api'' 3 10 any_exception 2 (1 / 2) 100 None = Inr example_breaker
   \<and> cb_state open_breaker = OPEN \<and> cb_last_failure_time open_breaker = Some 1
   \<and> recovery_timeout open_breaker = 10
   \<and> state_changes open_breaker = [OPEN]"
  by (simp add: open_breaker_def CircuitBreaker_init_def CircuitBreakerMetrics_init_def
      breaker_defs example_defs metrics_defs)

lemma example_epoch_breaker:
  "cb_state epoch_breaker = OPEN \<and> cb_last_failure_time epoch_breaker = Some 0
   \<and> recovery_timeout epoch_breaker = 10"
  by (simp add: epoch_breaker_def breaker_defs example_defs metrics_defs)

text \<open>
  C2 does not hold of the code for a stamp that is not null but zero: the recovery check
  tests \<^verbatim>\<open>self._last_failure_time\<close> for truth, where its docstring says it checks
  whether enough time has passed. \<open>epoch_breaker\<close> is the breaker constructed as
  \<open>example_breaker\<close> after one failing call at clock reading 0: it is OPEN with
  \<^verbatim>\<open>_last_failure_time = 0.0\<close> and a recovery timeout of 10. A state query at clock 1000
  returns OPEN and changes nothing, and a call attempted at clock 1000 is rejected
  without invoking the operation.
\<close>

theorem C2_zero_stamp_stays_open:
  "CircuitBreaker_init ''api'' 3 10 any_exception 2 (1 / 2) 100 None = Inr example_breaker
   \<and> epoch_breaker = run_breaker example_breaker [Call failing () (tick 0)]
   \<and> cb_state epoch_breaker = OPEN
   \<and> cb_last_failure_time epoch_breaker = Some 0
   \<and> recovery_timeout epoch_breaker = 10
   \<and> state epoch_breaker 1000 = (OPEN, epoch_breaker)
   \<and> fst (call epoch_breaker succeeding () (tick 1000))
       = Inl (Exn ''CircuitBreakerError''
               (''Circuit breaker '' @ [CHR 0x27] @ ''api'' @ [CHR 0x27] @ '' is OPEN''))
   \<and> snd (snd (call epoch_breaker succeeding () (tick 1000))) = []"
proof -
  have n: "fallback_function epoch_breaker = None" "name epoch_breaker = ''api''"
    by (simp_all add: epoch_breaker_def breaker_defs example_defs metrics_defs)
  from example_epoch_breaker example_open_breaker n show ?thesis
    by (simp add: call_def state_def should_attempt_reset_def circuit_open_error_def
        epoch_breaker_def tick_def del: run_breaker.simps)
qed

text \<open>
  The recovery path for a stamp \<open>tf\<close> other than zero. For every breaker in OPEN and
  every clock reading \<open>now\<close> with \<open>now - tf \<ge> recovery_timeout\<close>: a state query at \<open>now\<close>
  returns HALF_OPEN and leaves the breaker in HALF_OPEN with both counters 0, the
  listeners notified of HALF_OPEN once, and nothing else changed; a further state query,
  at any clock, changes nothing; a state query before the timeout has elapsed leaves the
  breaker OPEN and unchanged (the transition is made by the query itself); a call
  attempted at such a clock behaves as a call on the half-opened breaker and invokes the
  operation; and one failure handled in HALF_OPEN puts the breaker back to OPEN.
\<close>

lemma lazy_recovery:
  assumes "cb_state b = OPEN" and "cb_last_failure_time b = Some tf" and "tf \<noteq> 0"
    and "now - tf \<ge> recovery_timeout b"
  shows "state b now =
      (HALF_OPEN, b\<lparr> cb_state := HALF_OPEN, cb_success_count := 0, cb_failure_count := 0,
                     state_changes := state_changes b @ [HALF_OPEN] \<rparr>)
    \<and> state (snd (state b now)) later = (HALF_OPEN, snd (state b now))
    \<and> (earlier - tf < recovery_timeout b \<longrightarrow> state b earlier = (OPEN, b))
    \<and> (at_state ck - tf \<ge> recovery_timeout b \<longrightarrow>
          call b func args ck = call (snd (state b (at_state ck))) func args ck
          \<and> InvokedOperation \<in> set (snd (snd (call b func args ck))))
    \<and> (cb_state h = HALF_OPEN \<longrightarrow>
          cb_state (on_failure h err dur t) = OPEN
          \<and> cb_last_failure_time (on_failure h err dur t) = Some t
          \<and> cb_success_count (on_failure h err dur t) = 0
          \<and> cb_failure_count (on_failure h err dur t) = 0)"
proof -
  have q: "state b t' =
      (HALF_OPEN, b\<lparr> cb_state := HALF_OPEN, cb_success_count := 0, cb_failure_count := 0,
                     state_changes := state_changes b @ [HALF_OPEN] \<rparr>)"
    if "t' - tf \<ge> recovery_timeout b" for t'
    using assms(1-3) that
    by (simp add: state_def should_attempt_reset_def transition_to_half_open_def
        notify_state_change_def)
  have again: "state (snd (state b now)) later = (HALF_OPEN, snd (state b now))"
    by (simp add: q [OF assms(4)]) (simp add: state_def)
  have before: "state b earlier = (OPEN, b)" if "earlier - tf < recovery_timeout b"
    using assms(1,2) that by (simp add: state_def should_attempt_reset_def)
  have attempt: "call b func args ck = call (snd (state b (at_state ck))) func args ck
      \<and> InvokedOperation \<in> set (snd (snd (call b func args ck)))"
    if "at_state ck - tf \<ge> recovery_timeout b"
  proof -
    let ?h = "b\<lparr> cb_state := HALF_OPEN, cb_success_count := 0, cb_failure_count := 0,
                  state_changes := state_changes b @ [HALF_OPEN] \<rparr>"
    have s1: "state b (at_state ck) = (HALF_OPEN, ?h)" by (rule q [OF that])
    have s2: "state ?h (at_state ck) = (HALF_OPEN, ?h)" by (simp add: state_def)
    have "call b func args ck = call ?h func args ck"
      by (simp add: call_def s1 s2)
    moreover have "InvokedOperation \<in> set (snd (snd (call b func args ck)))"
      by (simp add: call_def s1 Let_def split: sum.splits option.splits prod.splits)
    ultimately show ?thesis by (simp add: s1)
  qed
  have reopen: "cb_state (on_failure h err dur t) = OPEN
      \<and> cb_last_failure_time (on_failure h err dur t) = Some t
      \<and> cb_success_count (on_failure h err dur t) = 0
      \<and> cb_failure_count (on_failure h err dur t) = 0"
    if "cb_state h = HALF_OPEN"
    using that
    by (simp add: on_failure_def transition_to_open_def notify_state_change_def)
  from q [OF assms(4)] again before attempt reopen show ?thesis by blast
qed

lemma lazy_recovery_example:
  "cb_state open_breaker = OPEN \<and> cb_last_failure_time open_breaker = Some 1
   \<and> 11 - 1 \<ge> recovery_timeout open_breaker
   \<and> state open_breaker 11 =
       (HALF_OPEN, open_breaker\<lparr> cb_state := HALF_OPEN, cb_success_count := 0,
           cb_failure_count := 0,
           state_changes := state_changes open_breaker @ [HALF_OPEN] \<rparr>)
   \<and> state (snd (state open_breaker 11)) 12 = (HALF_OPEN, snd (state open_breaker 11))
   \<and> state open_breaker 5 = (OPEN, open_breaker)
   \<and> InvokedOperation \<in> set (snd (snd (call open_breaker failing () (tick 11))))
   \<and> cb_state (on_failure (snd (state open_breaker 11)) boom 0 11) = OPEN"
proof -
  have h: "cb_state open_breaker = OPEN" "cb_last_failure_time open_breaker = Some 1"
    "(1::rat) \<noteq> 0" "11 - 1 \<ge> recovery_timeout open_breaker"
    using example_open_breaker by simp_all
  have e: "5 - 1 < recovery_timeout open_breaker"
    and c: "at_state (tick 11) - 1 \<ge> recovery_timeout open_breaker"
    using example_open_breaker by (simp_all add: tick_def)
  note t = lazy_recovery [OF h, where later = 12 and earlier = 5 and ck = "tick 11"
      and func = failing and args = "()" and h = "snd (state open_breaker 11)"
      and err = boom and dur = 0 and t = 11]
  from t have a1: "state open_breaker 11 =
       (HALF_OPEN, open_breaker\<lparr> cb_state := HALF_OPEN, cb_success_count := 0,
           cb_failure_count := 0,
           state_changes := state_changes open_breaker @ [HALF_OPEN] \<rparr>)"
    by blast
  from t have a2: "state (snd (state open_breaker 11)) 12
      = (HALF_OPEN, snd (state open_breaker 11))"
    by blast
  from t e have a3: "state open_breaker 5 = (OPEN, open_breaker)" by blast
  from t c have a4: "InvokedOperation \<in> set (snd (snd (call open_breaker failing () (tick 11))))"
    by blast
  from a1 have "cb_state (snd (state open_breaker 11)) = HALF_OPEN" by simp
  with t have a5: "cb_state (on_failure (snd (state open_breaker 11)) boom 0 11) = OPEN"
    by blast
  from h a1 a2 a3 a4 a5 show ?thesis by blast
qed

subsection \<open>Closing from HALF_OPEN\<close>

lemma on_success_config:
  "success_threshold (on_success b dur now) = success_threshold b"
  by (simp add: on_success_def transition_to_closed_def notify_state_change_def Let_def)

lemma run_calls_succeeding:
  assumes f: "func args = Inr r"
  shows "run_calls b func args cks = (b', N) \<Longrightarrow>
     (cb_state b = CLOSED \<and> cb_failure_count b = 0)
     \<or> (cb_state b = HALF_OPEN \<and> 1 \<le> length cks
        \<and> success_threshold b \<le> int (cb_success_count b) + int (length cks)) \<Longrightarrow>
     cb_state b' = CLOSED \<and> cb_failure_count b' = 0 \<and> N = length cks"
proof (induction cks arbitrary: b N)
  case Nil
  then show ?case by auto
next
  case (Cons ck cks)
  let ?b1 = "on_success b (op_duration ck) (at_handler ck)"
  from Cons.prems(2) have no: "cb_state b \<noteq> OPEN" by auto
  have c: "call b func args ck = (Inr r, ?b1, [InvokedOperation])"
    by (rule call_succeeding [of func args r b ck, OF f no])
  obtain n where r: "run_calls ?b1 func args cks = (b', n)" and N: "N = 1 + n"
    using Cons.prems(1) c by (auto split: prod.splits)
  have "(cb_state ?b1 = CLOSED \<and> cb_failure_count ?b1 = 0)
     \<or> (cb_state ?b1 = HALF_OPEN \<and> 1 \<le> length cks
        \<and> success_threshold ?b1 \<le> int (cb_success_count ?b1) + int (length cks))"
    using Cons.prems(2)
    by (auto simp: on_success_def transition_to_closed_def notify_state_change_def Let_def)
  from Cons.IH [OF r this] N show ?case by simp
qed

text \<open>
  C3. For every breaker in HALF_OPEN and every run of \<open>n\<close> calls through \<^verbatim>\<open>call()\<close> of an
  operation that returns normally, with \<open>n \<ge> 1\<close> and \<open>n \<ge> success_threshold\<close>: every call
  invokes the operation, and after the run the breaker is CLOSED with failure count 0.
\<close>

theorem C3_successes_close_the_breaker:
  assumes "cb_state b = HALF_OPEN" and "func args = Inr r"
    and "run_calls b func args cks = (b', N)"
    and "1 \<le> length cks" and "success_threshold b \<le> int (length cks)"
  shows "cb_state b' = CLOSED \<and> cb_failure_count b' = 0 \<and> N = length cks"
proof -
  from assms(1,4,5)
  have "(cb_state b = CLOSED \<and> cb_failure_count b = 0)
     \<or> (cb_state b = HALF_OPEN \<and> 1 \<le> length cks
        \<and> success_threshold b \<le> int (cb_success_count b) + int (length cks))"
    by simp
  from run_calls_succeeding [OF assms(2) assms(3) this] show ?thesis .
qed

lemma example_half_open_breaker:
  "cb_state half_open_breaker = HALF_OPEN \<and> success_threshold half_open_breaker = 2
   \<and> fallback_function half_open_breaker = Some cached
   \<and> recovery_timeout half_open_breaker = 10
   \<and> expected_exception half_open_breaker boom"
  by (simp add: half_open_breaker_def breaker_defs example_defs metrics_defs)

theorem C3_successes_close_the_breaker_witness:
  "cb_state half_open_breaker = HALF_OPEN \<and> succeeding () = Inr ''fresh''
   \<and> success_threshold half_open_breaker = 2
   \<and> cb_state (fst (run_calls half_open_breaker succeeding () [tick 12, tick 13])) = CLOSED
   \<and> cb_failure_count (fst (run_calls half_open_breaker succeeding () [tick 12, tick 13])) = 0
   \<and> snd (run_calls half_open_breaker succeeding () [tick 12, tick 13]) = 2"
proof -
  have h: "cb_state half_open_breaker = HALF_OPEN" "succeeding () = Inr ''fresh''"
    "success_threshold half_open_breaker = 2"
    using example_half_open_breaker by (simp_all add: succeeding_def)
  have r: "run_calls half_open_breaker succeeding () [tick 12, tick 13]
      = (fst (run_calls half_open_breaker succeeding () [tick 12, tick 13]),
         snd (run_calls half_open_breaker succeeding () [tick 12, tick 13]))"
    by (simp del: run_calls.simps)
  from C3_successes_close_the_breaker [OF h(1,2) r] h
  show ?thesis by (simp del: run_calls.simps)
qed

subsection \<open>A failure in HALF_OPEN with a fallback configured\<close>

lemma call_half_open_failing:
  assumes "cb_state b = HALF_OPEN" and "func args = Inl e" and "expected_exception b e"
    and "at_recheck ck - at_handler ck < recovery_timeout b"
  shows "fst (call b func args ck) = Inl e
    \<and> cb_state (fst (snd (call b func args ck))) = OPEN
    \<and> snd (snd (call b func args ck)) = [InvokedOperation]"
  using assms
  by (simp add: breaker_defs)

text \<open>
  C5 does not hold of the code. \<open>half_open_breaker\<close> is in HALF_OPEN, with a fallback
  function and a recovery timeout of 10. A call at clock 12 invokes the operation, which
  raises the expected exception; \<^verbatim>\<open>_on_failure\<close> puts the breaker to OPEN before
  \<^verbatim>\<open>call()\<close> tests \<^verbatim>\<open>self.state == CircuitState.HALF_OPEN\<close>, so the test fails, the fallback
  is not invoked and the exception of the operation is raised to the caller.
\<close>

theorem C5_half_open_failure_propagates:
  "cb_state half_open_breaker = HALF_OPEN
   \<and> fallback_function half_open_breaker = Some cached
   \<and> failing () = Inl boom \<and> expected_exception half_open_breaker boom
   \<and> cached () = Inr ''cached''
   \<and> fst (call half_open_breaker failing () (tick 12)) = Inl boom
   \<and> snd (snd (call half_open_breaker failing () (tick 12))) = [InvokedOperation]
   \<and> cb_state (fst (snd (call half_open_breaker failing () (tick 12)))) = OPEN"
  by (simp add: half_open_breaker_def breaker_defs example_defs metrics_defs)

subsection \<open>OPEN implies a stamped failure time\<close>

lemma state_stamped:
  "(cb_state b = OPEN \<longrightarrow> cb_last_failure_time b \<noteq> None) \<Longrightarrow>
   cb_state (snd (state b now)) = OPEN \<longrightarrow> cb_last_failure_time (snd (state b now)) \<noteq> None"
  by (simp add: state_def transition_to_half_open_def notify_state_change_def)

lemma on_failure_stamped: "cb_last_failure_time (on_failure b err dur now) = Some now"
  by (simp add: on_failure_def transition_to_open_def notify_state_change_def Let_def)

lemma on_success_stamped:
  "(cb_state b = OPEN \<longrightarrow> cb_last_failure_time b \<noteq> None) \<Longrightarrow>
   cb_state (on_success b dur now) = OPEN \<longrightarrow>
     cb_last_failure_time (on_success b dur now) \<noteq> None"
  by (simp add: on_success_def transition_to_closed_def notify_state_change_def Let_def)

lemma call_stamped:
  assumes "cb_state b = OPEN \<longrightarrow> cb_last_failure_time b \<noteq> None"
  shows "cb_state (fst (snd (call b func args ck))) = OPEN \<longrightarrow>
     cb_last_failure_time (fst (snd (call b func args ck))) \<noteq> None"
  using assms
  by (auto simp: breaker_defs split: option.splits if_splits sum.splits)

lemma apply_breaker_op_stamped:
  assumes "cb_state b = OPEN \<longrightarrow> cb_last_failure_time b \<noteq> None"
  shows "cb_state (apply_breaker_op b x) = OPEN \<longrightarrow>
     cb_last_failure_time (apply_breaker_op b x) \<noteq> None"
proof (cases x)
  case (QueryState now)
  with state_stamped [OF assms] show ?thesis by simp
next
  case (Call func args ck)
  with call_stamped [OF assms] show ?thesis by simp
next
  case Reset
  then show ?thesis
    by (simp add: reset_def transition_to_closed_def notify_state_change_def)
qed

lemma run_breaker_stamped:
  "(cb_state b = OPEN \<longrightarrow> cb_last_failure_time b \<noteq> None) \<Longrightarrow>
   cb_state (run_breaker b ops) = OPEN \<longrightarrow> cb_last_failure_time (run_breaker b ops) \<noteq> None"
proof (induction ops arbitrary: b)
  case Nil
  then show ?case by simp
next
  case (Cons x xs)
  from Cons.IH [OF apply_breaker_op_stamped [OF Cons.prems]] show ?case by simp
qed

text \<open>
  In every state a breaker reaches from its construction through state queries, calls
  and resets, at any clock readings: if the state is OPEN then the last failure time is
  not null (it is stamped by the failure handling that opened the breaker); and if that
  stamp is not zero, the state query at every clock reading at or after stamp +
  \<open>recovery_timeout\<close> moves the breaker to HALF_OPEN.
\<close>

lemma open_has_failure_time:
  assumes "CircuitBreaker_init nm fthr rto exc sthr frate wsize fb = Inr b0"
    and "cb_state (run_breaker b0 ops) = OPEN"
  shows "\<exists>tf. cb_last_failure_time (run_breaker b0 ops) = Some tf
    \<and> (tf \<noteq> 0 \<longrightarrow>
        (\<forall>now. now - tf \<ge> recovery_timeout (run_breaker b0 ops) \<longrightarrow>
           fst (state (run_breaker b0 ops) now) = HALF_OPEN))"
proof -
  from assms(1) have "cb_state b0 = CLOSED"
    by (auto simp: CircuitBreaker_init_def split: sum.splits)
  then have "cb_state b0 = OPEN \<longrightarrow> cb_last_failure_time b0 \<noteq> None" by simp
  from run_breaker_stamped [OF this, of ops] assms(2)
  obtain tf where tf: "cb_last_failure_time (run_breaker b0 ops) = Some tf" by auto
  have "fst (state (run_breaker b0 ops) now) = HALF_OPEN"
    if "tf \<noteq> 0" "now - tf \<ge> recovery_timeout (run_breaker b0 ops)" for now
    using assms(2) tf that
    by (simp add: state_def should_attempt_reset_def transition_to_half_open_def
        notify_state_change_def)
  with tf show ?thesis by blast
qed

lemma open_has_failure_time_example:
  "CircuitBreaker_init ''api'' 3 10 any_exception 2 (1 / 2) 100 None = Inr example_breaker
   \<and> open_breaker = run_breaker example_breaker [Call failing () (tick 1)]
   \<and> cb_state open_breaker = OPEN
   \<and> cb_last_failure_time open_breaker = Some 1
   \<and> 11 - 1 \<ge> recovery_timeout open_breaker
   \<and> fst (state open_breaker 11) = HALF_OPEN"
proof -
  have i: "CircuitBreaker_init ''api'' 3 10 any_exception 2 (1 / 2) 100 None
      = Inr example_breaker"
    and o: "cb_state (run_breaker example_breaker [Call failing () (tick 1)]) = OPEN"
    and s: "cb_last_failure_time open_breaker = Some 1"
    and r: "11 - 1 \<ge> recovery_timeout open_breaker"
    using example_open_breaker by (simp_all add: open_breaker_def del: run_breaker.simps)
  from open_has_failure_time [OF i o] s r
  have "fst (state open_breaker 11) = HALF_OPEN"
    by (auto simp: open_breaker_def simp del: run_breaker.simps)
  with i o s r show ?thesis
    by (simp add: open_breaker_def del: run_breaker.simps)
qed

text \<open>
  C10 does not hold of the code in its conclusion. The invariant holds: a breaker in OPEN
  has a stamp. But the recovery check tests the stamp for truth, so for \<open>epoch_breaker\<close>,
  reached from the constructor by one failing call at clock reading 0, which is OPEN with
  the stamp 0.0, the check holds at no clock reading at all and every state query leaves
  the breaker OPEN and unchanged.
\<close>

theorem C10_zero_stamp_never_recovers:
  "CircuitBreaker_init ''api'' 3 10 any_exception 2 (1 / 2) 100 None = Inr example_breaker
   \<and> epoch_breaker = run_breaker example_breaker [Call failing () (tick 0)]
   \<and> cb_state epoch_breaker = OPEN
   \<and> cb_last_failure_time epoch_breaker = Some 0
   \<and> (\<forall>now. should_attempt_reset epoch_breaker now = False
          \<and> state epoch_breaker now = (OPEN, epoch_breaker))"
  using example_epoch_breaker example_open_breaker
  by (simp add: state_def should_attempt_reset_def epoch_breaker_def del: run_breaker.simps)

section \<open>Batched consumer\<close>

lemmas consumer_example_defs = example_config_def ok_handler_def bad_payload_def
  failing_handler_def popping_handler_def popping_failing_handler_def
  raising_error_handler_def ok_commit_def ok_send_def failing_send_def
  example_consumer_def event_record_def OptimizedKafkaConsumer_init_def

lemmas consumer_defs = process_batch_def commit_batch_offsets_def send_to_dlq_def
  handle_message_error_def call_error_handler_def error_handler_result_def
  default_error_handler_def
  flush_batch_def add_to_batch_def check_batch_timeout_def emit_def batch_offsets_def
  tp_of_def message_of_def headers_dict_def dlq_topic_for_def dlq_message_for_def
  spec_commit_offset_def last_offset_def

lemma str_int_examples: "str_int 0 = ''0'' \<and> str_int 4711 = ''4711'' \<and> str_int (- 120) = ''-120''"
  by code_simp

subsection \<open>Traces\<close>

lemma handled_batches_append:
  "handled_batches (xs @ ys) = handled_batches xs @ handled_batches ys"
  by (induction xs rule: handled_batches.induct) simp_all

lemma commits_append: "commits (xs @ ys) = commits xs @ commits ys"
  by (induction xs rule: commits.induct) simp_all

lemma dlq_sends_append: "dlq_sends (xs @ ys) = dlq_sends xs @ dlq_sends ys"
  by (induction xs rule: dlq_sends.induct) simp_all

lemma threads_started_append:
  "threads_started (xs @ ys) = threads_started xs @ threads_started ys"
  by (induction xs rule: threads_started.induct) simp_all

lemma threads_started_map [simp]: "threads_started (map ThreadStarted ts) = ts"
  by (induction ts) simp_all

lemma threads_started_map_comp [simp]:
  "threads_started (map (ThreadStarted \<circ> f) xs) = map f xs"
  by (induction xs) simp_all

lemma poll_loops_entered_map_comp [simp]:
  "poll_loops_entered (map (ThreadStarted \<circ> f) xs) = 0"
  by (induction xs) simp_all

lemma poll_loops_entered_append:
  "poll_loops_entered (xs @ ys) = poll_loops_entered xs + poll_loops_entered ys"
  by (induction xs rule: poll_loops_entered.induct) simp_all

lemmas trace_append = handled_batches_append commits_append dlq_sends_append
  threads_started_append poll_loops_entered_append

lemma emit_fields [simp]:
  "config (emit c evs) = config c"
  "message_handler (emit c evs) = message_handler c"
  "error_handler (emit c evs) = error_handler c"
  "consumer_commit (emit c evs) = consumer_commit c"
  "dlq_producer (emit c evs) = dlq_producer c"
  "running (emit c evs) = running c"
  "processing_threads (emit c evs) = processing_threads c"
  "batch_queue (emit c evs) = batch_queue c"
  "last_batch_time (emit c evs) = last_batch_time c"
  "trace (emit c evs) = trace c @ evs"
  by (simp_all add: emit_def)

text \<open>
  Steps that leave alone what the constructor, \<^verbatim>\<open>start\<close> and \<^verbatim>\<open>stop\<close> set, and the
  buffer, that only add to the trace, and whose new events are neither handler calls,
  nor commits, nor thread starts, nor poll loop entries.
\<close>

lemma send_to_dlq_frame:
  "config (send_to_dlq c m e now) = config c
   \<and> message_handler (send_to_dlq c m e now) = message_handler c
   \<and> error_handler (send_to_dlq c m e now) = error_handler c
   \<and> consumer_commit (send_to_dlq c m e now) = consumer_commit c
   \<and> dlq_producer (send_to_dlq c m e now) = dlq_producer c
   \<and> running (send_to_dlq c m e now) = running c
   \<and> processing_threads (send_to_dlq c m e now) = processing_threads c
   \<and> batch_queue (send_to_dlq c m e now) = batch_queue c
   \<and> last_batch_time (send_to_dlq c m e now) = last_batch_time c
   \<and> handled_batches (trace (send_to_dlq c m e now)) = handled_batches (trace c)
   \<and> commits (trace (send_to_dlq c m e now)) = commits (trace c)
   \<and> threads_started (trace (send_to_dlq c m e now)) = threads_started (trace c)
   \<and> poll_loops_entered (trace (send_to_dlq c m e now)) = poll_loops_entered (trace c)
   \<and> prefix (trace c) (trace (send_to_dlq c m e now))"
  by (simp add: send_to_dlq_def Let_def trace_append split: option.splits)

lemma call_error_handler_frame:
  "config (snd (call_error_handler c e m)) = config c
   \<and> message_handler (snd (call_error_handler c e m)) = message_handler c
   \<and> error_handler (snd (call_error_handler c e m)) = error_handler c
   \<and> consumer_commit (snd (call_error_handler c e m)) = consumer_commit c
   \<and> dlq_producer (snd (call_error_handler c e m)) = dlq_producer c
   \<and> running (snd (call_error_handler c e m)) = running c
   \<and> processing_threads (snd (call_error_handler c e m)) = processing_threads c
   \<and> batch_queue (snd (call_error_handler c e m)) = batch_queue c
   \<and> last_batch_time (snd (call_error_handler c e m)) = last_batch_time c
   \<and> handled_batches (trace (snd (call_error_handler c e m))) = handled_batches (trace c)
   \<and> commits (trace (snd (call_error_handler c e m))) = commits (trace c)
   \<and> dlq_sends (trace (snd (call_error_handler c e m))) = dlq_sends (trace c)
   \<and> threads_started (trace (snd (call_error_handler c e m))) = threads_started (trace c)
   \<and> poll_loops_entered (trace (snd (call_error_handler c e m)))
        = poll_loops_entered (trace c)
   \<and> prefix (trace c) (trace (snd (call_error_handler c e m)))
   \<and> fst (call_error_handler c e m) = error_handler_result c e m"
  by (simp add: call_error_handler_def error_handler_result_def default_error_handler_def
      trace_append split: error_callback.splits)

lemma handle_message_error_frame:
  "config (handle_message_error c m e now) = config c
   \<and> message_handler (handle_message_error c m e now) = message_handler c
   \<and> error_handler (handle_message_error c m e now) = error_handler c
   \<and> consumer_commit (handle_message_error c m e now) = consumer_commit c
   \<and> dlq_producer (handle_message_error c m e now) = dlq_producer c
   \<and> running (handle_message_error c m e now) = running c
   \<and> processing_threads (handle_message_error c m e now) = processing_threads c
   \<and> batch_queue (handle_message_error c m e now) = batch_queue c
   \<and> last_batch_time (handle_message_error c m e now) = last_batch_time c
   \<and> handled_batches (trace (handle_message_error c m e now)) = handled_batches (trace c)
   \<and> commits (trace (handle_message_error c m e now)) = commits (trace c)
   \<and> threads_started (trace (handle_message_error c m e now)) = threads_started (trace c)
   \<and> poll_loops_entered (trace (handle_message_error c m e now))
        = poll_loops_entered (trace c)
   \<and> prefix (trace c) (trace (handle_message_error c m e now))"
proof -
  let ?c0 = "emit c [ErrorHandlerCalled e m]"
  obtain r m' c1 where h: "call_error_handler ?c0 e m = ((r, m'), c1)"
    by (cases "call_error_handler ?c0 e m") auto
  from call_error_handler_frame [of ?c0 e m] h
  have f: "config c1 = config c" "message_handler c1 = message_handler c"
    "error_handler c1 = error_handler c" "consumer_commit c1 = consumer_commit c"
    "dlq_producer c1 = dlq_producer c" "running c1 = running c"
    "processing_threads c1 = processing_threads c" "batch_queue c1 = batch_queue c"
    "last_batch_time c1 = last_batch_time c"
    "handled_batches (trace c1) = handled_batches (trace c)"
    "commits (trace c1) = commits (trace c)"
    "threads_started (trace c1) = threads_started (trace c)"
    "poll_loops_entered (trace c1) = poll_loops_entered (trace c)"
    by (simp_all add: trace_append)
  from call_error_handler_frame [of ?c0 e m] h
  have "prefix (trace ?c0) (trace c1)" by simp
  then have p: "prefix (trace c) (trace c1)" by (auto simp: prefix_def)
  show ?thesis
  proof (cases r)
    case (Some e')
    with h have "handle_message_error c m e now
        = emit c1 [LogError (''Error in error handler: '' @ exn_str e')]"
      by (simp add: handle_message_error_def)
    with f p show ?thesis by (auto simp: trace_append prefix_def)
  next
    case None
    show ?thesis
    proof (cases "enable_dlq (config c1) \<and> dlq_producer c1 \<noteq> None")
      case True
      with None h have "handle_message_error c m e now = send_to_dlq c1 m' e now"
        by (simp add: handle_message_error_def)
      with send_to_dlq_frame [of c1 m' e now] f p show ?thesis
        by (auto simp: trace_append intro: prefix_order.trans)
    next
      case False
      with None h have "handle_message_error c m e now = c1"
        by (auto simp: handle_message_error_def)
      with f p show ?thesis by simp
    qed
  qed
qed

lemma handle_batch_error_frame:
  "config (handle_batch_error c batch e now) = config c
   \<and> message_handler (handle_batch_error c batch e now) = message_handler c
   \<and> error_handler (handle_batch_error c batch e now) = error_handler c
   \<and> consumer_commit (handle_batch_error c batch e now) = consumer_commit c
   \<and> dlq_producer (handle_batch_error c batch e now) = dlq_producer c
   \<and> running (handle_batch_error c batch e now) = running c
   \<and> processing_threads (handle_batch_error c batch e now) = processing_threads c
   \<and> batch_queue (handle_batch_error c batch e now) = batch_queue c
   \<and> last_batch_time (handle_batch_error c batch e now) = last_batch_time c
   \<and> handled_batches (trace (handle_batch_error c batch e now)) = handled_batches (trace c)
   \<and> commits (trace (handle_batch_error c batch e now)) = commits (trace c)
   \<and> threads_started (trace (handle_batch_error c batch e now)) = threads_started (trace c)
   \<and> poll_loops_entered (trace (handle_batch_error c batch e now))
        = poll_loops_entered (trace c)
   \<and> prefix (trace c) (trace (handle_batch_error c batch e now))"
proof (induction batch arbitrary: c)
  case Nil
  show ?case by simp
next
  case (Cons m batch)
  from Cons.IH [of "handle_message_error c m e now"] handle_message_error_frame [of c m e now]
  show ?case by (auto intro: prefix_order.trans)
qed

lemma commit_batch_offsets_frame:
  "config (snd (commit_batch_offsets c batch)) = config c
   \<and> message_handler (snd (commit_batch_offsets c batch)) = message_handler c
   \<and> error_handler (snd (commit_batch_offsets c batch)) = error_handler c
   \<and> consumer_commit (snd (commit_batch_offsets c batch)) = consumer_commit c
   \<and> dlq_producer (snd (commit_batch_offsets c batch)) = dlq_producer c
   \<and> running (snd (commit_batch_offsets c batch)) = running c
   \<and> processing_threads (snd (commit_batch_offsets c batch)) = processing_threads c
   \<and> batch_queue (snd (commit_batch_offsets c batch)) = batch_queue c
   \<and> last_batch_time (snd (commit_batch_offsets c batch)) = last_batch_time c
   \<and> handled_batches (trace (snd (commit_batch_offsets c batch))) = handled_batches (trace c)
   \<and> commits (trace (snd (commit_batch_offsets c batch)))
        = commits (trace c) @ [batch_offsets batch]
   \<and> dlq_sends (trace (snd (commit_batch_offsets c batch))) = dlq_sends (trace c)
   \<and> threads_started (trace (snd (commit_batch_offsets c batch))) = threads_started (trace c)
   \<and> poll_loops_entered (trace (snd (commit_batch_offsets c batch)))
        = poll_loops_entered (trace c)
   \<and> (\<exists>rest. trace (snd (commit_batch_offsets c batch))
                = trace c @ [Commit (batch_offsets batch)] @ rest
             \<and> commits rest = [] \<and> handled_batches rest = [])"
  by (simp add: commit_batch_offsets_def Let_def trace_append split: option.splits)

lemma process_batch_frame:
  "config (process_batch c batch now) = config c
   \<and> message_handler (process_batch c batch now) = message_handler c
   \<and> error_handler (process_batch c batch now) = error_handler c
   \<and> consumer_commit (process_batch c batch now) = consumer_commit c
   \<and> dlq_producer (process_batch c batch now) = dlq_producer c
   \<and> running (process_batch c batch now) = running c
   \<and> processing_threads (process_batch c batch now) = processing_threads c
   \<and> batch_queue (process_batch c batch now) = batch_queue c
   \<and> last_batch_time (process_batch c batch now) = last_batch_time c
   \<and> handled_batches (trace (process_batch c batch now)) = handled_batches (trace c) @ [batch]
   \<and> threads_started (trace (process_batch c batch now)) = threads_started (trace c)
   \<and> poll_loops_entered (trace (process_batch c batch now)) = poll_loops_entered (trace c)"
proof -
  obtain r batch' where mh: "message_handler c batch = (r, batch')"
    by (cases "message_handler c batch") auto
  show ?thesis
  proof (cases r)
    case (Some e)
    let ?c1 = "emit (emit c [HandlerCalled batch])
                 [LogError (''Error processing batch: '' @ exn_str e)]"
    from Some mh have "process_batch c batch now = handle_batch_error ?c1 batch' e now"
      by (simp add: process_batch_def Let_def)
    with handle_batch_error_frame [of ?c1 batch' e now] show ?thesis
      by (simp add: trace_append)
  next
    case None
    let ?c1 = "emit c [HandlerCalled batch]"
    obtain r' c2 where cm: "commit_batch_offsets ?c1 batch' = (r', c2)"
      by (cases "commit_batch_offsets ?c1 batch'") auto
    from commit_batch_offsets_frame [of ?c1 batch'] cm
    have f: "config c2 = config c" "message_handler c2 = message_handler c"
      "error_handler c2 = error_handler c" "consumer_commit c2 = consumer_commit c"
      "dlq_producer c2 = dlq_producer c" "running c2 = running c"
      "processing_threads c2 = processing_threads c" "batch_queue c2 = batch_queue c"
      "last_batch_time c2 = last_batch_time c"
      "handled_batches (trace c2) = handled_batches (trace c) @ [batch]"
      "threads_started (trace c2) = threads_started (trace c)"
      "poll_loops_entered (trace c2) = poll_loops_entered (trace c)"
      by (simp_all add: trace_append)
    show ?thesis
    proof (cases r')
      case None
      with \<open>r = None\<close> mh cm have "process_batch c batch now = c2"
        by (simp add: process_batch_def Let_def)
      with f show ?thesis by simp
    next
      case (Some e)
      let ?c3 = "emit c2 [LogError (''Error processing batch: '' @ exn_str e)]"
      from Some \<open>r = None\<close> mh cm
      have "process_batch c batch now = handle_batch_error ?c3 batch' e now"
        by (simp add: process_batch_def Let_def)
      with handle_batch_error_frame [of ?c3 batch' e now] f show ?thesis
        by (simp add: trace_append)
    qed
  qed
qed

lemma flush_batch_frame:
  "config (flush_batch c now) = config c
   \<and> running (flush_batch c now) = running c
   \<and> processing_threads (flush_batch c now) = processing_threads c
   \<and> batch_queue (flush_batch c now) = []
   \<and> handled_batches (trace (flush_batch c now))
        = handled_batches (trace c) @ (if batch_queue c = [] then [] else [batch_queue c])
   \<and> threads_started (trace (flush_batch c now)) = threads_started (trace c)
   \<and> poll_loops_entered (trace (flush_batch c now)) = poll_loops_entered (trace c)"
  using process_batch_frame [of "c\<lparr> batch_queue := [], last_batch_time := now \<rparr>"
      "batch_queue c" now]
  by (simp add: flush_batch_def)

lemma add_to_batch_frame:
  "config (add_to_batch c r now) = config c
   \<and> running (add_to_batch c r now) = running c
   \<and> processing_threads (add_to_batch c r now) = processing_threads c
   \<and> threads_started (trace (add_to_batch c r now)) = threads_started (trace c)
   \<and> poll_loops_entered (trace (add_to_batch c r now)) = poll_loops_entered (trace c)"
  using flush_batch_frame [of "c\<lparr> batch_queue := batch_queue c @ [message_of r] \<rparr>" now]
  by (simp add: add_to_batch_def Let_def)

lemma check_batch_timeout_frame:
  "config (check_batch_timeout c now) = config c
   \<and> running (check_batch_timeout c now) = running c
   \<and> processing_threads (check_batch_timeout c now) = processing_threads c
   \<and> threads_started (trace (check_batch_timeout c now)) = threads_started (trace c)
   \<and> poll_loops_entered (trace (check_batch_timeout c now)) = poll_loops_entered (trace c)"
  using flush_batch_frame [of c now]
  by (simp add: check_batch_timeout_def Let_def)

lemma add_records_frame:
  "config (add_records c rs now) = config c
   \<and> running (add_records c rs now) = running c
   \<and> processing_threads (add_records c rs now) = processing_threads c
   \<and> threads_started (trace (add_records c rs now)) = threads_started (trace c)
   \<and> poll_loops_entered (trace (add_records c rs now)) = poll_loops_entered (trace c)"
proof (induction rs arbitrary: c)
  case Nil
  show ?case by simp
next
  case (Cons r rs)
  from Cons.IH [of "add_to_batch c r now"] add_to_batch_frame [of c r now]
  show ?case by simp
qed

lemma poll_step_frame:
  "config (poll_step c p) = config c
   \<and> running (poll_step c p) = running c
   \<and> processing_threads (poll_step c p) = processing_threads c
   \<and> threads_started (trace (poll_step c p)) = threads_started (trace c)
   \<and> poll_loops_entered (trace (poll_step c p)) = poll_loops_entered (trace c)"
proof (cases p)
  case (Polled messages now)
  with check_batch_timeout_frame [of c now]
    add_records_frame [of c "concat (map snd messages)" now]
  show ?thesis by (simp add: poll_step_def)
next
  case (PollRaisedKafkaError e)
  then show ?thesis by (simp add: poll_step_def trace_append)
next
  case (PollRaised e)
  then show ?thesis by (simp add: poll_step_def trace_append)
qed

lemma consume_messages_frame:
  "config (consume_messages c ps) = config c
   \<and> running (consume_messages c ps) = running c
   \<and> processing_threads (consume_messages c ps) = processing_threads c
   \<and> threads_started (trace (consume_messages c ps)) = threads_started (trace c)
   \<and> poll_loops_entered (trace (consume_messages c ps)) = poll_loops_entered (trace c)"
proof (induction ps arbitrary: c)
  case Nil
  show ?case by simp
next
  case (Cons p ps)
  from Cons.IH [of "poll_step c p"] poll_step_frame [of c p]
  show ?case by simp
qed

subsection \<open>Offsets committed for a batch\<close>

lemma last_filter_Cons:
  "last (filter P (m # ms)) = (if filter P ms \<noteq> [] then last (filter P ms) else m)"
  if "P m \<or> filter P ms \<noteq> []"
  using that by auto

lemma map_of_fold_offsets:
  "map_of (fold (\<lambda>msg offsets. AList.update (tp_of msg) (msg_offset msg + 1) offsets) batch al) tp
     = (if tp \<in> tp_of ` set batch then Some (last_offset batch tp + 1) else map_of al tp)"
proof (induction batch arbitrary: al)
  case Nil
  show ?case by simp
next
  case (Cons m batch)
  let ?al = "AList.update (tp_of m) (msg_offset m + 1) al"
  have in_rest: "tp \<in> tp_of ` set batch \<longleftrightarrow> filter (\<lambda>x. tp_of x = tp) batch \<noteq> []"
    by (auto simp: filter_empty_conv)
  show ?case
  proof (cases "tp \<in> tp_of ` set batch")
    case True
    with in_rest have "last_offset (m # batch) tp = last_offset batch tp"
      by (simp add: last_offset_def)
    with Cons.IH [of ?al] True show ?thesis by simp
  next
    case False
    with in_rest have e: "filter (\<lambda>x. tp_of x = tp) batch = []" by simp
    show ?thesis
    proof (cases "tp_of m = tp")
      case True
      with e have "last_offset (m # batch) tp = msg_offset m"
        by (simp add: last_offset_def)
      with Cons.IH [of ?al] False True show ?thesis by (simp add: update_conv')
    next
      case False
      with Cons.IH [of ?al] \<open>tp \<notin> tp_of ` set batch\<close> show ?thesis
        by (auto simp: update_conv')
    qed
  qed
qed

lemma distinct_fold_offsets:
  "distinct (map fst al) \<Longrightarrow>
   distinct (map fst (fold (\<lambda>msg offsets. AList.update (tp_of msg) (msg_offset msg + 1) offsets)
                        batch al))"
  by (induction batch arbitrary: al) (simp_all add: distinct_update)

lemma sorted_last_Max:
  assumes "xs \<noteq> []" and "sorted xs"
  shows "last xs = Max (set (xs :: int list))"
proof -
  from assms(1) have xs: "xs = butlast xs @ [last xs]" by simp
  with assms(2) have "sorted (butlast xs @ [last xs])" by simp
  then have "\<forall>y \<in> set (butlast xs). y \<le> last xs" by (simp add: sorted_append)
  with xs have le: "\<forall>y \<in> set xs. y \<le> last xs"
    by (metis Un_iff insert_iff list.set(2) order_refl set_append empty_iff list.set(1))
  from assms(1) have "last xs \<in> set xs" by simp
  with le have "Max (set xs) = last xs" by (intro Max_eqI) auto
  then show ?thesis by simp
qed

text \<open>
  C6, as stated, fails in two ways. The dict of offsets keeps, for each partition, the
  entry written last: for a batch holding offset 5 and then offset 3 of one partition the
  commit carries 4, and the largest offset plus 1 is 6. And the offsets are read from the
  list after the handler has had it: when the handler takes the last of the two messages
  3 and 4 off the list and returns, the commit carries 4, and the largest offset of the
  batch plus 1 is 5.
\<close>

theorem C6_last_offset_counterexample:
  "message_handler example_consumer
       [message_of (event_record 5), message_of (event_record 3)]
     = (None, [message_of (event_record 5), message_of (event_record 3)])
   \<and> commits (trace (process_batch example_consumer
       [message_of (event_record 5), message_of (event_record 3)] 0))
     = [[((''platform-events'', 0), 4)]]
   \<and> spec_commit_offset [message_of (event_record 5), message_of (event_record 3)]
       (''platform-events'', 0) = 6
   \<and> message_handler (example_consumer\<lparr> message_handler := popping_handler \<rparr>)
       [message_of (event_record 3), message_of (event_record 4)]
     = (None, [message_of (event_record 3)])
   \<and> commits (trace (process_batch (example_consumer\<lparr> message_handler := popping_handler \<rparr>)
       [message_of (event_record 3), message_of (event_record 4)] 0))
     = [[((''platform-events'', 0), 4)]]
   \<and> spec_commit_offset [message_of (event_record 3), message_of (event_record 4)]
       (''platform-events'', 0) = 5"
  by (simp add: consumer_defs consumer_example_defs Let_def)

text \<open>
  C6 (amended). For every batch whose handler returns, \<^verbatim>\<open>_process_batch\<close> calls the
  handler and then issues exactly one commit, and no other commit follows. The commit is
  computed from the list as the handler leaves it (the batch itself when the handler
  does not alter its argument): it carries one entry for each partition represented in
  that list and none else, the offset of the last message of that partition in the
  list, plus 1, which is the largest offset of the partition in the list plus 1
  whenever the offsets of that partition stand in ascending order in it. For a batch
  whose handler raises, no commit is issued.
\<close>

theorem C6_commit_after_handler:
  "(message_handler c batch = (None, batch') \<longrightarrow>
      (\<exists>rest. trace (process_batch c batch now)
                = trace c @ [HandlerCalled batch, Commit (batch_offsets batch')] @ rest
             \<and> commits rest = [] \<and> handled_batches rest = [])
      \<and> commits (trace (process_batch c batch now))
            = commits (trace c) @ [batch_offsets batch'])
   \<and> (message_handler c batch = (Some e, batch') \<longrightarrow>
        commits (trace (process_batch c batch now)) = commits (trace c))
   \<and> distinct (map fst (batch_offsets batch'))
   \<and> map_of (batch_offsets batch') tp
        = (if tp \<in> tp_of ` set batch' then Some (last_offset batch' tp + 1) else None)
   \<and> (tp \<in> tp_of ` set batch'
        \<and> sorted (map msg_offset (filter (\<lambda>m. tp_of m = tp) batch')) \<longrightarrow>
      last_offset batch' tp + 1 = spec_commit_offset batch' tp)"
proof -
  let ?c1 = "emit c [HandlerCalled batch]"
  have ok: "(\<exists>rest. trace (process_batch c batch now)
                = trace c @ [HandlerCalled batch, Commit (batch_offsets batch')] @ rest
             \<and> commits rest = [] \<and> handled_batches rest = [])
      \<and> commits (trace (process_batch c batch now))
            = commits (trace c) @ [batch_offsets batch']"
    if h: "message_handler c batch = (None, batch')"
  proof -
    obtain r c2 where cm: "commit_batch_offsets ?c1 batch' = (r, c2)"
      by (cases "commit_batch_offsets ?c1 batch'") auto
    from commit_batch_offsets_frame [of ?c1 batch'] cm
    obtain rest where t2: "trace c2 = trace ?c1 @ [Commit (batch_offsets batch')] @ rest"
      and q: "commits rest = []" "handled_batches rest = []"
      by auto
    show ?thesis
    proof (cases r)
      case None
      with h cm have "process_batch c batch now = c2"
        by (simp add: process_batch_def Let_def)
      with t2 q show ?thesis by (simp add: trace_append)
    next
      case (Some e')
      let ?c3 = "emit c2 [LogError (''Error processing batch: '' @ exn_str e')]"
      from Some h cm have p: "process_batch c batch now = handle_batch_error ?c3 batch' e' now"
        by (simp add: process_batch_def Let_def)
      from handle_batch_error_frame [of ?c3 batch' e' now]
      have pre: "prefix (trace ?c3) (trace (handle_batch_error ?c3 batch' e' now))"
        and q3: "commits (trace (handle_batch_error ?c3 batch' e' now)) = commits (trace ?c3)"
          "handled_batches (trace (handle_batch_error ?c3 batch' e' now))
             = handled_batches (trace ?c3)"
        by simp_all
      from pre obtain rest'
        where t3: "trace (handle_batch_error ?c3 batch' e' now) = trace ?c3 @ rest'"
        by (auto simp: prefix_def)
      from q3 t3 have q': "commits rest' = []" "handled_batches rest' = []"
        by (simp_all add: trace_append)
      let ?rest = "rest @ [LogError (''Error processing batch: '' @ exn_str e')] @ rest'"
      from p t3 t2 have "trace (process_batch c batch now)
          = trace c @ [HandlerCalled batch, Commit (batch_offsets batch')] @ ?rest"
        by simp
      moreover from q q' have "commits ?rest = []" "handled_batches ?rest = []"
        by (simp_all add: trace_append)
      ultimately show ?thesis by (simp add: trace_append del: append_assoc)
    qed
  qed
  have bad: "commits (trace (process_batch c batch now)) = commits (trace c)"
    if h: "message_handler c batch = (Some e, batch')"
  proof -
    let ?c2 = "emit ?c1 [LogError (''Error processing batch: '' @ exn_str e)]"
    from h have "process_batch c batch now = handle_batch_error ?c2 batch' e now"
      by (simp add: process_batch_def Let_def)
    with handle_batch_error_frame [of ?c2 batch' e now] show ?thesis
      by (simp add: trace_append)
  qed
  have d: "distinct (map fst (batch_offsets batch'))"
    unfolding batch_offsets_def by (rule distinct_fold_offsets) simp
  have m: "map_of (batch_offsets batch') tp
        = (if tp \<in> tp_of ` set batch' then Some (last_offset batch' tp + 1) else None)"
    unfolding batch_offsets_def by (simp add: map_of_fold_offsets)
  have s: "last_offset batch' tp + 1 = spec_commit_offset batch' tp"
    if "tp \<in> tp_of ` set batch'"
      and "sorted (map msg_offset (filter (\<lambda>m. tp_of m = tp) batch'))"
  proof -
    let ?ms = "filter (\<lambda>m. tp_of m = tp) batch'"
    from that(1) have ne: "?ms \<noteq> []" by (auto simp: filter_empty_conv)
    then have "msg_offset (last ?ms) = last (map msg_offset ?ms)" by (simp add: last_map)
    also from ne that(2) have "\<dots> = Max (set (map msg_offset ?ms))"
      by (intro sorted_last_Max) simp_all
    finally show ?thesis by (simp add: last_offset_def spec_commit_offset_def)
  qed
  from ok bad d m s show ?thesis by blast
qed

theorem C6_commit_after_handler_witness:
  "message_handler example_consumer
       [message_of (event_record 3), message_of (event_record 4)]
     = (None, [message_of (event_record 3), message_of (event_record 4)])
   \<and> trace (process_batch example_consumer
       [message_of (event_record 3), message_of (event_record 4)] 0)
     = [HandlerCalled [message_of (event_record 3), message_of (event_record 4)],
        Commit [((''platform-events'', 0), 5)]]
   \<and> message_handler (example_consumer\<lparr> message_handler := failing_handler \<rparr>)
       [message_of (event_record 3), message_of (event_record 4)]
     = (Some bad_payload, [message_of (event_record 3), message_of (event_record 4)])
   \<and> commits (trace (process_batch (example_consumer\<lparr> message_handler := failing_handler \<rparr>)
       [message_of (event_record 3), message_of (event_record 4)] 0)) = []
   \<and> sorted (map msg_offset (filter (\<lambda>m. tp_of m = (''platform-events'', 0))
       [message_of (event_record 3), message_of (event_record 4)]))
   \<and> spec_commit_offset [message_of (event_record 3), message_of (event_record 4)]
       (''platform-events'', 0) = 5"
  using C6_commit_after_handler [where c = example_consumer
      and batch = "[message_of (event_record 3), message_of (event_record 4)]"
      and batch' = "[message_of (event_record 3), message_of (event_record 4)]"
      and now = 0 and e = bad_payload and tp = "(''platform-events'', 0)"]
    C6_commit_after_handler [where c = "example_consumer\<lparr> message_handler := failing_handler \<rparr>"
      and batch = "[message_of (event_record 3), message_of (event_record 4)]"
      and batch' = "[message_of (event_record 3), message_of (event_record 4)]"
      and now = 0 and e = bad_payload and tp = "(''platform-events'', 0)"]
  by (simp add: consumer_defs consumer_example_defs Let_def)

subsection \<open>Dead-lettering a failed batch\<close>

lemma error_handler_result_cong:
  "error_handler c' = error_handler c \<Longrightarrow>
   error_handler_result c' e m = error_handler_result c e m"
  by (simp add: error_handler_result_def)

lemma send_to_dlq_sends:
  "dlq_producer c = Some send \<Longrightarrow>
   dlq_sends (trace (send_to_dlq c m e now))
     = dlq_sends (trace c) @ [(dlq_topic_for c m, dlq_message_for c m e now, msg_key m)]"
  by (simp add: send_to_dlq_def Let_def trace_append split: option.splits)

lemma handle_message_error_sends:
  assumes "enable_dlq (config c)" and "dlq_producer c = Some send"
  shows "dlq_sends (trace (handle_message_error c m e now))
     = dlq_sends (trace c)
       @ (if fst (error_handler_result c e m) = None
          then [(dlq_topic_for c (snd (error_handler_result c e m)),
                 dlq_message_for c (snd (error_handler_result c e m)) e now,
                 msg_key (snd (error_handler_result c e m)))]
          else [])"
proof -
  let ?c0 = "emit c [ErrorHandlerCalled e m]"
  obtain r m' c1 where h: "call_error_handler ?c0 e m = ((r, m'), c1)"
    by (cases "call_error_handler ?c0 e m") auto
  from call_error_handler_frame [of ?c0 e m] h
  have f: "config c1 = config c" "dlq_producer c1 = dlq_producer c"
    "dlq_sends (trace c1) = dlq_sends (trace c)"
    "error_handler_result c e m = (r, m')"
    by (simp_all add: trace_append error_handler_result_def)
  show ?thesis
  proof (cases r)
    case (Some e')
    with h have "handle_message_error c m e now
        = emit c1 [LogError (''Error in error handler: '' @ exn_str e')]"
      by (simp add: handle_message_error_def)
    with f Some show ?thesis by (simp add: trace_append)
  next
    case None
    with h f assms have "handle_message_error c m e now = send_to_dlq c1 m' e now"
      by (simp add: handle_message_error_def)
    moreover from f assms have "dlq_producer c1 = Some send" by simp
    ultimately show ?thesis
      using f None send_to_dlq_sends [of c1 send m' e now]
      by (simp add: dlq_topic_for_def dlq_message_for_def)
  qed
qed

lemma handle_batch_error_sends:
  "enable_dlq (config c) \<Longrightarrow> dlq_producer c = Some send \<Longrightarrow>
   dlq_sends (trace (handle_batch_error c batch e now))
     = dlq_sends (trace c)
       @ map (\<lambda>m. (dlq_topic_for c (snd (error_handler_result c e m)),
                   dlq_message_for c (snd (error_handler_result c e m)) e now,
                   msg_key (snd (error_handler_result c e m))))
           (filter (\<lambda>m. fst (error_handler_result c e m) = None) batch)"
proof (induction batch arbitrary: c)
  case Nil
  show ?case by simp
next
  case (Cons m batch)
  let ?c1 = "handle_message_error c m e now"
  from handle_message_error_frame [of c m e now] Cons.prems
  have f: "config ?c1 = config c" "dlq_producer ?c1 = Some send"
    "error_handler ?c1 = error_handler c" "enable_dlq (config ?c1)"
    by simp_all
  have r: "error_handler_result ?c1 e x = error_handler_result c e x" for x
    by (rule error_handler_result_cong [OF f(3)])
  from Cons.IH [OF f(4) f(2)] handle_message_error_sends [OF Cons.prems, of m e now] f(1)
  show ?case
    by (simp add: r dlq_topic_for_def dlq_message_for_def)
qed

text \<open>
  C7, as stated, fails in two ways. \<^verbatim>\<open>_handle_batch_error\<close> calls the error handler and the
  dead-letter send of a message inside one \<^verbatim>\<open>try\<close>, so a message whose error handler
  raises is logged and not sent: with dead-lettering enabled and an error handler that
  raises, a failed batch of 2 messages gives no send at all. And the loop runs over the
  list as the message handler left it: when the handler takes the last of 2 messages
  off the list and then raises, there is one send.
\<close>

theorem C7_error_handler_counterexample:
  "enable_dlq (config (example_consumer\<lparr> message_handler := failing_handler,
        error_handler := CustomErrorHandler raising_error_handler \<rparr>))
   \<and> dlq_producer (example_consumer\<lparr> message_handler := failing_handler,
        error_handler := CustomErrorHandler raising_error_handler \<rparr>) = Some ok_send
   \<and> message_handler (example_consumer\<lparr> message_handler := failing_handler,
        error_handler := CustomErrorHandler raising_error_handler \<rparr>)
        [message_of (event_record 3), message_of (event_record 4)]
      = (Some bad_payload, [message_of (event_record 3), message_of (event_record 4)])
   \<and> dlq_sends (trace (process_batch (example_consumer\<lparr> message_handler := failing_handler,
        error_handler := CustomErrorHandler raising_error_handler \<rparr>)
        [message_of (event_record 3), message_of (event_record 4)] 0)) = []
   \<and> enable_dlq (config (example_consumer\<lparr> message_handler := popping_failing_handler \<rparr>))
   \<and> dlq_producer (example_consumer\<lparr> message_handler := popping_failing_handler \<rparr>)
       = Some ok_send
   \<and> message_handler (example_consumer\<lparr> message_handler := popping_failing_handler \<rparr>)
        [message_of (event_record 3), message_of (event_record 4)]
      = (Some bad_payload, [message_of (event_record 3)])
   \<and> map (\<lambda>(topic, dm, k). msg_offset (dlq_original_message dm))
       (dlq_sends (trace (process_batch
          (example_consumer\<lparr> message_handler := popping_failing_handler \<rparr>)
          [message_of (event_record 3), message_of (event_record 4)] 0))) = [3]"
  by (simp add: consumer_defs consumer_example_defs Let_def)

text \<open>
  C7 (amended). For every batch whose handler raises, with dead-lettering enabled and a
  producer present: the loop runs over the list as the handler left it, and there is
  exactly one dead-letter send for each message of it whose error handler call returns,
  in the order of the list, and none for a message whose error handler call raises; so
  exactly \<open>B\<close> sends, one for each message of the batch, when the handler has left the
  list of \<open>B\<close> messages as it was and the error handler raises for none of them and
  alters none, as the default handler does. Each send carries the message dict as the
  error handler left it, and goes to the override topic if one is configured and not
  empty, and else to the topic of the message followed by \<^verbatim>\<open>-dlq\<close>; beside the message
  it carries \<^verbatim>\<open>str\<close> and class name of the error, the clock reading, the consumer group,
  and the \<^verbatim>\<open>retry_count\<close> of the message dict (0 when absent, as for every message the
  consumer builds) plus 1. A send that raises is logged and the loop goes on with the
  next message.
\<close>

theorem C7_dead_letter_sends:
  assumes "message_handler c batch = (Some error, batch')"
    and "enable_dlq (config c)" and "dlq_producer c = Some send"
  shows "dlq_sends (trace (process_batch c batch now))
      = dlq_sends (trace c)
        @ map (\<lambda>m. (dlq_topic_for c (snd (error_handler_result c error m)),
                    dlq_message_for c (snd (error_handler_result c error m)) error now,
                    msg_key (snd (error_handler_result c error m))))
            (filter (\<lambda>m. fst (error_handler_result c error m) = None) batch')
    \<and> (batch' = batch \<and> list_all (\<lambda>m. error_handler_result c error m = (None, m)) batch \<longrightarrow>
         dlq_sends (trace (process_batch c batch now))
           = dlq_sends (trace c)
             @ map (\<lambda>m. (dlq_topic_for c m, dlq_message_for c m error now, msg_key m)) batch)
    \<and> (error_handler c = DefaultErrorHandler \<longrightarrow> error_handler_result c error m = (None, m))
    \<and> dlq_topic_for c m
        = (case dlq_topic (config c) of
             Some t \<Rightarrow> if t \<noteq> [] then t else msg_topic m @ ''-dlq''
           | None \<Rightarrow> msg_topic m @ ''-dlq'')
    \<and> dlq_message_for c m error now
        = \<lparr> dlq_original_message = m, dlq_error = exn_str error,
            dlq_error_type = exn_type error, dlq_timestamp = now,
            dlq_consumer_group = consumer_group (config c),
            dlq_retry_count = (case msg_retry_count m of None \<Rightarrow> 0 | Some n \<Rightarrow> n) + 1 \<rparr>
    \<and> dlq_retry_count (dlq_message_for c (message_of r) error now) = 1
    \<and> (send (dlq_topic_for c m) (dlq_message_for c m error now) (msg_key m) = Some e' \<longrightarrow>
         send_to_dlq c m error now
           = emit c [DlqSend (dlq_topic_for c m) (dlq_message_for c m error now) (msg_key m),
                     LogError (''Failed to send to DLQ: '' @ exn_str e')])"
proof -
  let ?c2 = "emit (emit c [HandlerCalled batch])
               [LogError (''Error processing batch: '' @ exn_str error)]"
  from assms(1) have p: "process_batch c batch now = handle_batch_error ?c2 batch' error now"
    by (simp add: process_batch_def Let_def)
  have "enable_dlq (config ?c2)" "dlq_producer ?c2 = Some send"
    using assms(2,3) by simp_all
  from handle_batch_error_sends [OF this, of batch' error now] p
  have s: "dlq_sends (trace (process_batch c batch now))
      = dlq_sends (trace c)
        @ map (\<lambda>m. (dlq_topic_for c (snd (error_handler_result c error m)),
                    dlq_message_for c (snd (error_handler_result c error m)) error now,
                    msg_key (snd (error_handler_result c error m))))
            (filter (\<lambda>m. fst (error_handler_result c error m) = None) batch')"
    by (simp add: trace_append dlq_topic_for_def dlq_message_for_def error_handler_result_def)
  have n: "dlq_sends (trace (process_batch c batch now))
           = dlq_sends (trace c)
             @ map (\<lambda>m. (dlq_topic_for c m, dlq_message_for c m error now, msg_key m)) batch"
    if "batch' = batch" "list_all (\<lambda>m. error_handler_result c error m = (None, m)) batch"
  proof -
    from that(2) have a: "\<forall>m \<in> set batch. error_handler_result c error m = (None, m)"
      by (simp add: list_all_iff)
    then have "filter (\<lambda>m. fst (error_handler_result c error m) = None) batch = batch"
      by (simp add: filter_id_conv)
    moreover from a
    have "map (\<lambda>m. (dlq_topic_for c (snd (error_handler_result c error m)),
                    dlq_message_for c (snd (error_handler_result c error m)) error now,
                    msg_key (snd (error_handler_result c error m)))) batch
        = map (\<lambda>m. (dlq_topic_for c m, dlq_message_for c m error now, msg_key m)) batch"
      by simp
    ultimately show ?thesis using s that(1) by simp
  qed
  have l: "send_to_dlq c m error now
           = emit c [DlqSend (dlq_topic_for c m) (dlq_message_for c m error now) (msg_key m),
                     LogError (''Failed to send to DLQ: '' @ exn_str e')]"
    if "send (dlq_topic_for c m) (dlq_message_for c m error now) (msg_key m) = Some e'"
    using that assms(3) by (simp add: send_to_dlq_def Let_def)
  have dflt: "error_handler_result c error m = (None, m)"
    if "error_handler c = DefaultErrorHandler"
    using that by (simp add: error_handler_result_def)
  have defs: "dlq_topic_for c m
        = (case dlq_topic (config c) of
             Some t \<Rightarrow> if t \<noteq> [] then t else msg_topic m @ ''-dlq''
           | None \<Rightarrow> msg_topic m @ ''-dlq'')"
    "dlq_message_for c m error now
        = \<lparr> dlq_original_message = m, dlq_error = exn_str error,
            dlq_error_type = exn_type error, dlq_timestamp = now,
            dlq_consumer_group = consumer_group (config c),
            dlq_retry_count = (case msg_retry_count m of None \<Rightarrow> 0 | Some n \<Rightarrow> n) + 1 \<rparr>"
    "dlq_retry_count (dlq_message_for c (message_of r) error now) = 1"
    by (simp_all add: dlq_topic_for_def dlq_message_for_def message_of_def)
  from s n l dflt defs show ?thesis by blast
qed

theorem C7_dead_letter_sends_witness:
  "message_handler (example_consumer\<lparr> message_handler := failing_handler,
        dlq_producer := Some failing_send \<rparr>)
        [message_of (event_record 3), message_of (event_record 4)]
      = (Some bad_payload, [message_of (event_record 3), message_of (event_record 4)])
   \<and> enable_dlq (config (example_consumer\<lparr> message_handler := failing_handler,
        dlq_producer := Some failing_send \<rparr>))
   \<and> error_handler (example_consumer\<lparr> message_handler := failing_handler,
        dlq_producer := Some failing_send \<rparr>) = DefaultErrorHandler
   \<and> map (\<lambda>(topic, dm, k). (topic, msg_offset (dlq_original_message dm), dlq_retry_count dm))
       (dlq_sends (trace (process_batch (example_consumer\<lparr> message_handler := failing_handler,
          dlq_producer := Some failing_send \<rparr>)
          [message_of (event_record 3), message_of (event_record 4)] 7)))
     = [(''platform-events-dlq'', 3, 1), (''platform-events-dlq'', 4, 1)]"
  using C7_dead_letter_sends [where c = "example_consumer\<lparr> message_handler := failing_handler,
        dlq_producer := Some failing_send \<rparr>"
      and batch = "[message_of (event_record 3), message_of (event_record 4)]"
      and batch' = "[message_of (event_record 3), message_of (event_record 4)]"
      and error = bad_payload and send = failing_send and now = 7
      and m = "message_of (event_record 3)" and r = "event_record 3"
      and e' = "Exn ''KafkaTimeoutError'' ''timed out''"]
  by (simp add: consumer_defs consumer_example_defs Let_def)

subsection \<open>Starting twice\<close>

text \<open>
  C8 does not hold: \<^verbatim>\<open>start()\<close> tests nothing. A second \<^verbatim>\<open>start()\<close> on a consumer that is
  running starts 4 more workers and one more lag monitor and enters the poll loop again.
\<close>

theorem C8_second_start_counterexample:
  "running (start example_consumer [])
   \<and> processing_threads (start (start example_consumer []) [])
       = [Worker 0, Worker 1, Worker 2, Worker 3, Worker 0, Worker 1, Worker 2, Worker 3]
   \<and> threads_started (trace (start (start example_consumer []) []))
       = [Worker 0, Worker 1, Worker 2, Worker 3, LagMonitor,
          Worker 0, Worker 1, Worker 2, Worker 3, LagMonitor]
   \<and> poll_loops_entered (trace (start (start example_consumer []) [])) = 2"
  by (simp add: start_def consumer_defs consumer_example_defs Let_def upt_rec)

text \<open>
  C8 (amended). \<^verbatim>\<open>start()\<close> has no guard: on every consumer, running or not, it sets
  \<^verbatim>\<open>running\<close>, starts \<^verbatim>\<open>num_workers\<close> worker threads and appends them to
  \<^verbatim>\<open>processing_threads\<close>, starts one lag monitor thread, and enters the poll loop, whatever
  the polls of the loop return.
\<close>

theorem C8_start_is_unguarded:
  "running (start c polls)
   \<and> processing_threads (start c polls)
       = processing_threads c @ map Worker [0 ..< nat (num_workers (config c))]
   \<and> threads_started (trace (start c polls))
       = threads_started (trace c) @ map Worker [0 ..< nat (num_workers (config c))]
         @ [LagMonitor]
   \<and> poll_loops_entered (trace (start c polls)) = poll_loops_entered (trace c) + 1"
  using consume_messages_frame
    [of "emit (emit (emit (c\<lparr> running := True,
             processing_threads := processing_threads c
               @ map Worker [0 ..< nat (num_workers (config c))] \<rparr>)
           (map ThreadStarted (map Worker [0 ..< nat (num_workers (config c))])))
         [ThreadStarted LagMonitor]) [PollLoopEntered]" polls]
  by (simp add: start_def Let_def trace_append)

subsection \<open>The open batch buffer\<close>

lemma stop_frame:
  "config (stop c now) = config c \<and> batch_queue (stop c now) = []
   \<and> handled_batches (trace (stop c now))
        = handled_batches (trace c) @ (if batch_queue c = [] then [] else [batch_queue c])"
  using flush_batch_frame [of "c\<lparr> running := False \<rparr>" now]
  by (simp add: stop_def Let_def trace_append)

lemma flush_batch_bounded:
  assumes "1 \<le> batch_size (config c)"
    and "int (length (batch_queue c)) \<le> batch_size (config c)"
    and "list_all (\<lambda>b. b \<noteq> [] \<and> int (length b) \<le> batch_size (config c))
           (handled_batches (trace c))"
  shows "batches_bounded (flush_batch c now)"
  using assms flush_batch_frame [of c now]
  by (simp add: batches_bounded_def)

lemma apply_consumer_op_bounded:
  assumes "1 \<le> batch_size (config c)" and "batches_bounded c"
  shows "batches_bounded (apply_consumer_op c x)
    \<and> config (apply_consumer_op c x) = config c"
proof (cases x)
  case (AddToBatch r now)
  let ?c1 = "c\<lparr> batch_queue := batch_queue c @ [message_of r] \<rparr>"
  from assms(2) have q: "int (length (batch_queue ?c1)) \<le> batch_size (config ?c1)"
    and h: "list_all (\<lambda>b. b \<noteq> [] \<and> int (length b) \<le> batch_size (config ?c1))
           (handled_batches (trace ?c1))"
    by (simp_all add: batches_bounded_def)
  from assms(1) have b: "1 \<le> batch_size (config ?c1)" by simp
  show ?thesis
  proof (cases "int (length (batch_queue ?c1)) \<ge> batch_size (config ?c1)")
    case True
    then have "add_to_batch c r now = flush_batch ?c1 now"
      by (simp add: add_to_batch_def Let_def)
    with flush_batch_bounded [OF b q h, of now] flush_batch_frame [of ?c1 now] AddToBatch
    show ?thesis by simp
  next
    case False
    then have "add_to_batch c r now = ?c1"
      by (simp add: add_to_batch_def Let_def)
    with False h AddToBatch show ?thesis by (simp add: batches_bounded_def)
  qed
next
  case (CheckBatchTimeout now)
  from assms(2) have q: "int (length (batch_queue c)) \<le> batch_size (config c)"
    and h: "list_all (\<lambda>b. b \<noteq> [] \<and> int (length b) \<le> batch_size (config c))
           (handled_batches (trace c))"
    by (simp_all add: batches_bounded_def)
  from flush_batch_bounded [OF assms(1) q h, of now] flush_batch_frame [of c now] assms(2)
    CheckBatchTimeout
  show ?thesis by (simp add: check_batch_timeout_def Let_def)
next
  case (FlushBatch now)
  from assms(2) have q: "int (length (batch_queue c)) \<le> batch_size (config c)"
    and h: "list_all (\<lambda>b. b \<noteq> [] \<and> int (length b) \<le> batch_size (config c))
           (handled_batches (trace c))"
    by (simp_all add: batches_bounded_def)
  from flush_batch_bounded [OF assms(1) q h, of now] flush_batch_frame [of c now] FlushBatch
  show ?thesis by simp
next
  case (Stop now)
  from assms stop_frame [of c now] Stop show ?thesis
    by (simp add: batches_bounded_def)
qed

lemma run_consumer_bounded:
  "1 \<le> batch_size (config c) \<Longrightarrow> batches_bounded c \<Longrightarrow>
   batches_bounded (run_consumer c ops) \<and> config (run_consumer c ops) = config c"
proof (induction ops arbitrary: c)
  case Nil
  then show ?case by simp
next
  case (Cons x xs)
  from apply_consumer_op_bounded [OF Cons.prems, of x]
  have "batches_bounded (apply_consumer_op c x)" "config (apply_consumer_op c x) = config c"
    by simp_all
  with Cons.IH [of "apply_consumer_op c x"] Cons.prems(1) show ?case by simp
qed

text \<open>
  C9, as stated, fails for a batch size below 1, which \<^verbatim>\<open>ConsumerConfig\<close> accepts: with
  \<^verbatim>\<open>batch_size = 0\<close> the first message added is flushed at once, so the handler is passed
  a batch of 1 message, more than \<^verbatim>\<open>batch_size\<close>, and the empty buffer holds \<^verbatim>\<open>batch_size\<close>
  messages.
\<close>

theorem C9_batch_size_zero_counterexample:
  "batch_size (example_config\<lparr> batch_size := 0 \<rparr>) = 0
   \<and> handled_batches (trace (run_consumer
        (OptimizedKafkaConsumer_init (example_config\<lparr> batch_size := 0 \<rparr>)
           ok_handler None ok_commit ok_send 0)
        [AddToBatch (event_record 1) 0]))
     = [[message_of (event_record 1)]]
   \<and> length [message_of (event_record 1)] = 1
   \<and> length (batch_queue (run_consumer
        (OptimizedKafkaConsumer_init (example_config\<lparr> batch_size := 0 \<rparr>)
           ok_handler None ok_commit ok_send 0)
        [AddToBatch (event_record 1) 0])) = 0"
  by (simp add: consumer_defs consumer_example_defs Let_def)

text \<open>
  C9 (amended). For a consumer constructed with a batch size of at least 1, after any
  run of \<^verbatim>\<open>_add_to_batch\<close>, \<^verbatim>\<open>_check_batch_timeout\<close>, \<^verbatim>\<open>_flush_batch\<close> and \<^verbatim>\<open>stop\<close>: every batch
  that was passed to the message handler is non-empty and holds at most \<^verbatim>\<open>batch_size\<close>
  messages, the open buffer holds fewer than \<^verbatim>\<open>batch_size\<close> messages, and a flush leaves
  the buffer empty.
\<close>

theorem C9_batches_are_bounded:
  assumes "1 \<le> batch_size cfg"
  shows "list_all (\<lambda>b. b \<noteq> [] \<and> int (length b) \<le> batch_size cfg)
       (handled_batches (trace
          (run_consumer (OptimizedKafkaConsumer_init cfg handler eh commit send t0) ops)))
    \<and> int (length (batch_queue
          (run_consumer (OptimizedKafkaConsumer_init cfg handler eh commit send t0) ops)))
        < batch_size cfg
    \<and> batch_queue (flush_batch
          (run_consumer (OptimizedKafkaConsumer_init cfg handler eh commit send t0) ops) now)
        = []"
proof -
  let ?c0 = "OptimizedKafkaConsumer_init cfg handler eh commit send t0"
  have c: "config ?c0 = cfg" and b: "batches_bounded ?c0"
    using assms by (simp_all add: OptimizedKafkaConsumer_init_def batches_bounded_def)
  from run_consumer_bounded [of ?c0 ops] assms b c
  have "batches_bounded (run_consumer ?c0 ops)" "config (run_consumer ?c0 ops) = cfg"
    by simp_all
  with flush_batch_frame [of "run_consumer ?c0 ops" now] show ?thesis
    by (simp add: batches_bounded_def)
qed

theorem C9_batches_are_bounded_witness:
  "1 \<le> batch_size example_config
   \<and> handled_batches (trace (run_consumer example_consumer
        [AddToBatch (event_record 1) 0, AddToBatch (event_record 2) 0,
         AddToBatch (event_record 3) 1, Stop 2]))
     = [[message_of (event_record 1), message_of (event_record 2)],
        [message_of (event_record 3)]]
   \<and> batch_queue (run_consumer example_consumer
        [AddToBatch (event_record 1) 0, AddToBatch (event_record 2) 0,
         AddToBatch (event_record 3) 1]) = [message_of (event_record 3)]
   \<and> batch_queue (flush_batch (run_consumer example_consumer
        [AddToBatch (event_record 1) 0, AddToBatch (event_record 2) 0,
         AddToBatch (event_record 3) 1]) 2) = []"
  using C9_batches_are_bounded [where cfg = example_config and handler = ok_handler
      and eh = None and commit = ok_commit and send = ok_send and ?t0.0 = 0
      and ops = "[AddToBatch (event_record 1) 0, AddToBatch (event_record 2) 0,
         AddToBatch (event_record 3) 1]" and now = 2]
  by (simp add: stop_def consumer_defs consumer_example_defs Let_def)

end
